theory Spec2Isabelle
  imports Main "HOL-Library.Word"
begin

section \<open>Python values the kyc writer works on\<close>

text \<open>
  The program is \<^verbatim>\<open>src/main/resources/kyc.py\<close>. A Python \<^verbatim>\<open>bytes\<close> object is a list of
  8-bit words. A Python \<^verbatim>\<open>str\<close> is a list of Unicode code points (natural numbers up to
  0x10FFFF), so that \<^verbatim>\<open>len\<close> counts code points and \<^verbatim>\<open>encode("utf-8")\<close> is a function
  of its own. Python's \<^verbatim>\<open>int\<close> is unbounded: \<^typ>\<open>int\<close>.
\<close>

type_synonym byte = "8 word"
type_synonym bytes = "byte list"
type_synonym str = "nat list"

definition str_of :: "string \<Rightarrow> str" where
  "str_of s = map of_char s"

definition bytes_of :: "string \<Rightarrow> bytes" where
  "bytes_of s = map of_char s"

text \<open>
  Exceptions are values. Every constructor carries the text \<^verbatim>\<open>str(e)\<close> gives. The last
  constructor stands for the exceptions that do not derive from \<^verbatim>\<open>Exception\<close>
  (\<^verbatim>\<open>KeyboardInterrupt\<close>, \<^verbatim>\<open>SystemExit\<close>), which \<^verbatim>\<open>except Exception\<close> lets through.
\<close>

datatype error =
    OverflowError str
  | ValueError str
  | IndexError str
  | UnicodeEncodeError str
  | SyntaxError str
  | OSError str
  | AttributeError str
  | TypeError str
  | RecursionError str
  | OtherException str
  | BaseException str

fun message :: "error \<Rightarrow> str" where
  "message (OverflowError m) = m"
| "message (ValueError m) = m"
| "message (IndexError m) = m"
| "message (UnicodeEncodeError m) = m"
| "message (SyntaxError m) = m"
| "message (OSError m) = m"
| "message (AttributeError m) = m"
| "message (TypeError m) = m"
| "message (RecursionError m) = m"
| "message (OtherException m) = m"
| "message (BaseException m) = m"

fun is_SyntaxError :: "error \<Rightarrow> bool" where
  "is_SyntaxError (SyntaxError m) = True"
| "is_SyntaxError e = False"

fun is_Exception :: "error \<Rightarrow> bool" where
  "is_Exception (BaseException m) = False"
| "is_Exception e = True"

text \<open>
  A list literal whose elements are calls, and a loop that appends one call's result per
  round: the elements are evaluated in order and the first exception leaves the whole
  expression.
\<close>

fun sequence :: "(error + 'a) list \<Rightarrow> error + 'a list" where
  "sequence [] = Inr []"
| "sequence (Inl e # rs) = Inl e"
| "sequence (Inr x # rs) = (case sequence rs of Inl e \<Rightarrow> Inl e | Inr xs \<Rightarrow> Inr (x # xs))"

subsection \<open>int.to_bytes\<close>

fun le_bytes :: "nat \<Rightarrow> nat \<Rightarrow> bytes" where
  "le_bytes 0 n = []"
| "le_bytes (Suc k) n = of_nat (n mod 256) # le_bytes k (n div 256)"

text \<open>
  \<^verbatim>\<open>i.to_bytes(length=len, byteorder="little", signed=sg)\<close>, for \<open>len \<ge> 1\<close> (the source
  asks for 4 bytes and for 1 byte only). Python raises \<^verbatim>\<open>OverflowError\<close> when \<open>i\<close> does not
  fit; a signed value is written in two's complement.
\<close>

definition to_bytes :: "int \<Rightarrow> nat \<Rightarrow> bool \<Rightarrow> error + bytes" where
  "to_bytes i len sg =
     (if sg then
        (if - (2 ^ (8 * len - 1)) \<le> i \<and> i < 2 ^ (8 * len - 1)
         then Inr (le_bytes len (nat (i mod 2 ^ (8 * len))))
         else Inl (OverflowError (str_of ''int too big to convert'')))
      else if i < 0 then Inl (OverflowError (str_of ''can't convert negative int to unsigned''))
      else if i < 2 ^ (8 * len) then Inr (le_bytes len (nat i))
      else Inl (OverflowError (str_of ''int too big to convert'')))"

subsection \<open>Digits\<close>

text \<open>A lower-case hexadecimal digit, and the decimal text of a number.\<close>

definition hexdigit :: "nat \<Rightarrow> nat" where
  "hexdigit d = (if d < 10 then 48 + d else 87 + d)"

fun str_nat :: "nat \<Rightarrow> str" where
  "str_nat n = (if n < 10 then [48 + n] else str_nat (n div 10) @ [48 + n mod 10])"

subsection \<open>str.encode("utf-8")\<close>

text \<open>
  One code point gives one to four bytes. A surrogate (0xD800 to 0xDFFF), which a Python
  \<^verbatim>\<open>str\<close> can hold, is refused: \<open>utf8_encode\<close> raises \<^verbatim>\<open>UnicodeEncodeError\<close> with the text
  \<^verbatim>\<open>str(e)\<close> has: the codec, the refused character (or, for a run of several surrogates, no
  character), the position of the first surrogate (and of the last of its run), and the
  reason. \<open>utf8_char\<close> is the bytes of a code point that is no surrogate.
\<close>

definition is_surrogate :: "nat \<Rightarrow> bool" where
  "is_surrogate c = (0xD800 \<le> c \<and> c < 0xE000)"

definition surrogate_message :: "str \<Rightarrow> str" where
  "surrogate_message s =
     (let start = length (takeWhile (\<lambda>c. \<not> is_surrogate c) s);
          run = length (takeWhile is_surrogate (drop start s));
          c = hd (drop start s)
      in if run \<le> 1 then
           [39] @ str_of ''utf-8'' @ [39] @ str_of '' codec can't encode character ''
             @ [39, 92] @ str_of ''u''
             @ [hexdigit (c div 4096 mod 16), hexdigit (c div 256 mod 16),
                hexdigit (c div 16 mod 16), hexdigit (c mod 16)]
             @ [39] @ str_of '' in position '' @ str_nat start
             @ str_of '': surrogates not allowed''
         else
           [39] @ str_of ''utf-8'' @ [39] @ str_of '' codec can't encode characters in position ''
             @ str_nat start @ str_of ''-'' @ str_nat (start + run - 1)
             @ str_of '': surrogates not allowed'')"

definition utf8_char :: "nat \<Rightarrow> bytes" where
  "utf8_char c =
     (if c < 0x80 then [of_nat c]
      else if c < 0x800 then [of_nat (0xC0 + c div 0x40), of_nat (0x80 + c mod 0x40)]
      else if c < 0x10000
        then [of_nat (0xE0 + c div 0x1000), of_nat (0x80 + c div 0x40 mod 0x40),
              of_nat (0x80 + c mod 0x40)]
      else [of_nat (0xF0 + c div 0x40000 mod 8), of_nat (0x80 + c div 0x1000 mod 0x40),
            of_nat (0x80 + c div 0x40 mod 0x40), of_nat (0x80 + c mod 0x40)])"

definition utf8_encode :: "str \<Rightarrow> error + bytes" where
  "utf8_encode s =
     (if list_ex is_surrogate s then Inl (UnicodeEncodeError (surrogate_message s))
      else Inr (concat (map utf8_char s)))"

section \<open>The value encoder\<close>

text \<open>
  The objects \<^verbatim>\<open>_compile_object\<close> can be handed: the kinds it knows, and \<open>PyOther\<close> for an
  object of any other class (a \<^verbatim>\<open>complex\<close>, a \<^verbatim>\<open>frozenset\<close>, \<^verbatim>\<open>Ellipsis\<close>), carrying the
  class name. A \<^verbatim>\<open>float\<close> is its IEEE-754 binary64 bit pattern, which is all
  \<^verbatim>\<open>struct.pack("<d", v)\<close> reads of it. A \<^verbatim>\<open>dict\<close> is the list of its items in iteration
  order. A code object is the sixteen attributes \<^verbatim>\<open>_compile_code_object\<close> reads.

  \<^verbatim>\<open>_compile_object\<close> tests \<^verbatim>\<open>hasattr(i, "co_code")\<close>, which an object of any class can
  pass. So an object of another class says which it is: it has no attribute \<^verbatim>\<open>co_code\<close>
  (\<open>NoCoCode\<close>); or it has one, and reading and encoding the sixteen attributes raises the
  given exception, an \<^verbatim>\<open>AttributeError\<close> or \<^verbatim>\<open>TypeError\<close> as a rule (\<open>Raises\<close>); or it has
  all sixteen, with values of the kinds a code object holds (\<open>Like\<close>). An object whose
  attributes make \<^verbatim>\<open>_compile_code_object\<close> run for ever is left out.
\<close>

datatype val =
    PyInt int
  | PyBytes bytes
  | PyStr str
  | PyTuple "val list"
  | PyList "val list"
  | PyDict "(val \<times> val) list"
  | PyBool bool
  | PyFloat "64 word"
  | PyCode code
  | PyNone
  | PyOther str duck
and code =
  Code (co_argcount: int) (co_posonlyargcount: int) (co_kwonlyargcount: int)
       (co_nlocals: int) (co_stacksize: int) (co_flags: int)
       (co_code: bytes) (co_consts: "val list") (co_names: "val list")
       (co_varnames: "val list") (co_freevars: "val list") (co_cellvars: "val list")
       (co_filename: str) (co_name: str) (co_firstlineno: int) (co_lnotab: bytes)
and duck =
    NoCoCode | Raises error | Like code

datatype pytype =
    T_int | T_bytes | T_str | T_tuple | T_list | T_dict | T_bool | T_float
  | T_code | T_NoneType | T_other str

fun type_of :: "val \<Rightarrow> pytype" where
  "type_of (PyInt n) = T_int"
| "type_of (PyBytes s) = T_bytes"
| "type_of (PyStr s) = T_str"
| "type_of (PyTuple t) = T_tuple"
| "type_of (PyList t) = T_list"
| "type_of (PyDict t) = T_dict"
| "type_of (PyBool v) = T_bool"
| "type_of (PyFloat v) = T_float"
| "type_of (PyCode obb) = T_code"
| "type_of PyNone = T_NoneType"
| "type_of (PyOther nm d) = T_other nm"

text \<open>In Python \<^verbatim>\<open>bool\<close> is a subclass of \<^verbatim>\<open>int\<close>: \<^verbatim>\<open>isinstance(True, int)\<close> holds.\<close>

definition issubclass :: "pytype \<Rightarrow> pytype \<Rightarrow> bool" where
  "issubclass a c = (a = c \<or> (a = T_bool \<and> c = T_int))"

definition isinstance :: "val \<Rightarrow> pytype \<Rightarrow> bool" where
  "isinstance i c = issubclass (type_of i) c"

text \<open>
  \<^verbatim>\<open>hasattr(i, "co_code")\<close>, for an object that is of none of the kinds tested before it.
\<close>

fun hasattr_co_code :: "val \<Rightarrow> bool" where
  "hasattr_co_code (PyCode obb) = True"
| "hasattr_co_code (PyOther nm d) = (d \<noteq> NoCoCode)"
| "hasattr_co_code i = False"

text \<open>
  What an object holds, read only under the test of the branch that uses it. A \<^verbatim>\<open>bool\<close>
  used as an \<^verbatim>\<open>int\<close> is 0 or 1.
\<close>

fun int_value :: "val \<Rightarrow> int" where
  "int_value (PyInt n) = n"
| "int_value (PyBool v) = (if v then 1 else 0)"
| "int_value i = 0"

fun bytes_value :: "val \<Rightarrow> bytes" where
  "bytes_value (PyBytes s) = s"
| "bytes_value i = []"

fun str_value :: "val \<Rightarrow> str" where
  "str_value (PyStr s) = s"
| "str_value i = []"

fun seq_value :: "val \<Rightarrow> val list" where
  "seq_value (PyTuple t) = t"
| "seq_value (PyList t) = t"
| "seq_value i = []"

fun dict_items :: "val \<Rightarrow> (val \<times> val) list" where
  "dict_items (PyDict t) = t"
| "dict_items i = []"

fun bool_value :: "val \<Rightarrow> bool" where
  "bool_value (PyBool v) = v"
| "bool_value i = False"

fun float_value :: "val \<Rightarrow> 64 word" where
  "float_value (PyFloat v) = v"
| "float_value i = 0"

text \<open>
  What \<^verbatim>\<open>_compile_code_object\<close> finds when it reads the sixteen attributes of an object
  that has the attribute \<^verbatim>\<open>co_code\<close>.
\<close>

fun code_view :: "val \<Rightarrow> error + code" where
  "code_view (PyCode obb) = Inr obb"
| "code_view (PyOther nm (Like obb)) = Inr obb"
| "code_view (PyOther nm (Raises e)) = Inl e"
| "code_view i = Inl (AttributeError (str_of ''co_code''))"

fun repr_type :: "pytype \<Rightarrow> str" where
  "repr_type T_int = str_of ''<class 'int'>''"
| "repr_type T_bytes = str_of ''<class 'bytes'>''"
| "repr_type T_str = str_of ''<class 'str'>''"
| "repr_type T_tuple = str_of ''<class 'tuple'>''"
| "repr_type T_list = str_of ''<class 'list'>''"
| "repr_type T_dict = str_of ''<class 'dict'>''"
| "repr_type T_bool = str_of ''<class 'bool'>''"
| "repr_type T_float = str_of ''<class 'float'>''"
| "repr_type T_code = str_of ''<class 'code'>''"
| "repr_type T_NoneType = str_of ''<class 'NoneType'>''"
| "repr_type (T_other nm) = str_of ''<class '' @ [39] @ nm @ [39] @ str_of ''>''"

subsection \<open>The leaf encoders\<close>

definition compile_int :: "int \<Rightarrow> error + bytes" where
  "compile_int i =
     (case to_bytes i 4 True of Inl e \<Rightarrow> Inl e | Inr bs \<Rightarrow> Inr (bytes_of ''i'' @ bs))"

definition compile_bytestring :: "bytes \<Rightarrow> error + bytes" where
  "compile_bytestring s =
     (case to_bytes (int (length s)) 4 False of
        Inl e \<Rightarrow> Inl e
      | Inr sz \<Rightarrow> Inr (bytes_of ''b'' @ sz @ s))"

definition compile_unicode_string :: "str \<Rightarrow> error + bytes" where
  "compile_unicode_string s =
     (case utf8_encode s of
        Inl e \<Rightarrow> Inl e
      | Inr encoded \<Rightarrow>
          (case to_bytes (int (length encoded)) 4 False of
             Inl e \<Rightarrow> Inl e
           | Inr sz \<Rightarrow> Inr (bytes_of ''s'' @ sz @ encoded)))"

definition compile_nonetype :: "error + bytes" where
  "compile_nonetype = Inr (bytes_of ''N'')"

text \<open>\<^verbatim>\<open>[b"-", b"+"][v]\<close>: the list indexed by the boolean.\<close>

definition compile_bool :: "bool \<Rightarrow> error + bytes" where
  "compile_bool v = Inr ([bytes_of ''-'', bytes_of ''+''] ! (if v then 1 else 0))"

definition compile_float :: "64 word \<Rightarrow> error + bytes" where
  "compile_float v = Inr (bytes_of ''f'' @ le_bytes 8 (unat v))"

subsection \<open>The recursive encoders\<close>

text \<open>
  \<^verbatim>\<open>_compile_object\<close> is the chain of tests of the source, in the source's order. The
  sequence encoders compute the size field first, then encode the elements in order.
  The recursion ends because what a branch of the dispatch hands on is smaller than the
  object it was read from. These are the encoders as they run where the interpreter's
  limit on nested calls is not reached; \<open>compile_object_at\<close> below has the limit.
\<close>

lemma seq_value_size:
  "isinstance i T_tuple \<or> isinstance i T_list \<Longrightarrow> size_list size (seq_value i) < size i"
  by (cases i) (auto simp: isinstance_def issubclass_def)

lemma dict_items_size:
  "isinstance i T_dict \<Longrightarrow> size_list (size_prod size size) (dict_items i) < size i"
  by (cases i) (auto simp: isinstance_def issubclass_def)

lemma code_view_size: "code_view i = Inr obb \<Longrightarrow> size obb < size i"
  by (induction i rule: code_view.induct) auto

lemma elem_size: "x \<in> set t \<Longrightarrow> size x < size_list size t"
  by (induction t) auto

lemma pair_size:
  "(k, v) \<in> set t \<Longrightarrow>
     size k < size_list (size_prod size size) t \<and> size v < size_list (size_prod size size) t"
  by (induction t) auto

lemma code_fields_size:
  "size_list size (co_consts obb) < size obb"
  "size_list size (co_names obb) < size obb"
  "size_list size (co_varnames obb) < size obb"
  "size_list size (co_freevars obb) < size obb"
  "size_list size (co_cellvars obb) < size obb"
  by (cases obb; simp)+

function compile_object :: "val \<Rightarrow> error + bytes"
  and compile_tuple :: "val list \<Rightarrow> error + bytes"
  and compile_list :: "val list \<Rightarrow> error + bytes"
  and compile_dict :: "(val \<times> val) list \<Rightarrow> error + bytes"
  and compile_code_object :: "code \<Rightarrow> error + bytes"
where
  "compile_object i =
     (if isinstance i T_int then compile_int (int_value i)
      else if isinstance i T_bytes then compile_bytestring (bytes_value i)
      else if isinstance i T_str then compile_unicode_string (str_value i)
      else if isinstance i T_tuple then compile_tuple (seq_value i)
      else if isinstance i T_list then compile_list (seq_value i)
      else if isinstance i T_dict then compile_dict (dict_items i)
      else if isinstance i T_bool then compile_bool (bool_value i)
      else if isinstance i T_float then compile_float (float_value i)
      else if hasattr_co_code i then
        (case code_view i of Inl e \<Rightarrow> Inl e | Inr obb \<Rightarrow> compile_code_object obb)
      else if i = PyNone then compile_nonetype
      else Inl (ValueError (str_of ''Unknown type '' @ repr_type (type_of i))))"
| "compile_tuple t =
     (case to_bytes (int (length t)) 4 False of
        Inl e \<Rightarrow> Inl e
      | Inr sz \<Rightarrow>
          (case sequence (map compile_object t) of
             Inl e \<Rightarrow> Inl e
           | Inr items \<Rightarrow> Inr (bytes_of ''t'' @ sz @ concat items)))"
| "compile_list t =
     (case to_bytes (int (length t)) 4 False of
        Inl e \<Rightarrow> Inl e
      | Inr sz \<Rightarrow>
          (case sequence (map compile_object t) of
             Inl e \<Rightarrow> Inl e
           | Inr items \<Rightarrow> Inr (bytes_of ''l'' @ sz @ concat items)))"
| "compile_dict t =
     (case to_bytes (int (length t)) 4 False of
        Inl e \<Rightarrow> Inl e
      | Inr sz \<Rightarrow>
          (case sequence (concat (map (\<lambda>(k, v). [compile_object k, compile_object v]) t)) of
             Inl e \<Rightarrow> Inl e
           | Inr items \<Rightarrow> Inr (bytes_of ''d'' @ sz @ concat items)))"
| "compile_code_object obb =
     (case sequence
        [compile_int (co_argcount obb),
         compile_int (co_posonlyargcount obb),
         compile_int (co_kwonlyargcount obb),
         compile_int (co_nlocals obb),
         compile_int (co_stacksize obb),
         compile_int (co_flags obb),
         compile_bytestring (co_code obb),
         compile_tuple (co_consts obb),
         compile_tuple (co_names obb),
         compile_tuple (co_varnames obb),
         compile_tuple (co_freevars obb),
         compile_tuple (co_cellvars obb),
         compile_unicode_string (co_filename obb),
         compile_unicode_string (co_name obb),
         compile_int (co_firstlineno obb),
         compile_bytestring (co_lnotab obb)] of
        Inl e \<Rightarrow> Inl e
      | Inr items \<Rightarrow> Inr (bytes_of ''c'' @ concat items))"
  by pat_completeness auto
termination
  apply (relation "measure (\<lambda>x. case x of
       Inl (Inl i) \<Rightarrow> 2 * size i
     | Inl (Inr t) \<Rightarrow> 2 * size_list size t + 1
     | Inr (Inl t) \<Rightarrow> 2 * size_list size t + 1
     | Inr (Inr (Inl t)) \<Rightarrow> 2 * size_list (size_prod size size) t + 1
     | Inr (Inr (Inr obb)) \<Rightarrow> 2 * size obb + 1)")
                    apply simp
  using seq_value_size dict_items_size code_view_size
                   apply simp_all
     apply (fastforce dest: elem_size pair_size simp: code_fields_size)+
  done

declare compile_object.simps [simp del] compile_tuple.simps [simp del]
  compile_list.simps [simp del] compile_dict.simps [simp del]
  compile_code_object.simps [simp del]

subsection \<open>The encoders under the recursion limit\<close>





section \<open>Strings: split, join, hex\<close>

text \<open>
  \<^verbatim>\<open>s.split(sep)\<close> cuts \<open>s\<close> at the occurrences of \<open>sep\<close> found from the left, each search
  starting after the previous occurrence; it raises \<^verbatim>\<open>ValueError\<close> on an empty separator.
  \<open>split_from sep cur s\<close> is the scan: \<open>cur\<close> is the piece being read.
\<close>

function split_from :: "str \<Rightarrow> str \<Rightarrow> str \<Rightarrow> str list" where
  "split_from sep cur [] = [cur]"
| "split_from sep cur (c # cs) =
     (if sep \<noteq> [] \<and> take (length sep) (c # cs) = sep
      then cur # split_from sep [] (drop (length sep) (c # cs))
      else split_from sep (cur @ [c]) cs)"
  by pat_completeness auto
termination
  by (relation "measure (\<lambda>(sep, cur, s). length s)") auto

definition str_split :: "str \<Rightarrow> str \<Rightarrow> error + str list" where
  "str_split s sep =
     (if sep = [] then Inl (ValueError (str_of ''empty separator''))
      else Inr (split_from sep [] s))"

fun str_join :: "str \<Rightarrow> str list \<Rightarrow> str" where
  "str_join sep [] = []"
| "str_join sep [x] = x"
| "str_join sep (x # y # ys) = x @ sep @ str_join sep (y # ys)"

text \<open>
  \<^verbatim>\<open>s.split()\<close> with no argument cuts at runs of whitespace and gives no empty piece. The
  code points are those \<^verbatim>\<open>str.isspace\<close> accepts.
\<close>

definition isspace :: "nat \<Rightarrow> bool" where
  "isspace c =
     ((0x09 \<le> c \<and> c \<le> 0x0D) \<or> (0x1C \<le> c \<and> c \<le> 0x20) \<or> c = 0x85 \<or> c = 0xA0
      \<or> c = 0x1680 \<or> (0x2000 \<le> c \<and> c \<le> 0x200A) \<or> c = 0x2028 \<or> c = 0x2029
      \<or> c = 0x202F \<or> c = 0x205F \<or> c = 0x3000)"

fun split_ws_from :: "str \<Rightarrow> str \<Rightarrow> str list" where
  "split_ws_from cur [] = (if cur = [] then [] else [cur])"
| "split_ws_from cur (c # cs) =
     (if isspace c
      then (if cur = [] then split_ws_from [] cs else cur # split_ws_from [] cs)
      else split_ws_from (cur @ [c]) cs)"

definition str_split_ws :: "str \<Rightarrow> str list" where
  "str_split_ws s = split_ws_from [] s"

text \<open>\<^verbatim>\<open>bs.hex()\<close>: two lower-case hexadecimal digits per byte.\<close>

definition hex :: "bytes \<Rightarrow> str" where
  "hex bs = concat (map (\<lambda>x. [hexdigit (unat x div 16), hexdigit (unat x mod 16)]) bs)"

section \<open>The host\<close>

text \<open>
  What the program takes from its interpreter and operating system: the platform test that
  fixes \<^verbatim>\<open>path_sep\<close> at import, \<^verbatim>\<open>sys.version_info\<close>, \<^verbatim>\<open>sys.implementation.name\<close>,
  reading a text file, the built-in \<^verbatim>\<open>compile(text, filename, "exec")\<close>, and writing a
  binary file. The file system \<open>'fs\<close> is a state: writing returns the new one, with the
  exception when the write fails.
\<close>

record 'fs host =
  windows :: bool
  version_major :: nat
  version_minor :: nat
  version_micro :: nat
  releaselevel :: str
  implementation_name :: str
  read_text :: "'fs \<Rightarrow> str \<Rightarrow> error + str"
  builtin_compile :: "str \<Rightarrow> str \<Rightarrow> error + code"
  write_bytes :: "'fs \<Rightarrow> str \<Rightarrow> bytes \<Rightarrow> error option \<times> 'fs"

definition path_sep :: "'fs host \<Rightarrow> str" where
  "path_sep h = (if windows h then [92] else str_of ''/'')"

definition CODE_COMMENT :: str where
  "CODE_COMMENT = str_of ''This is an internal file generated by Kython. Do not edit!''"

section \<open>compile\_kyc\<close>

text \<open>
  Lines 181 to 187 of \<^verbatim>\<open>compile_kyc\<close>: the last component of the path, the directory part
  (\<^verbatim>\<open>"."\<close> when that is empty) and the name of the output file. \<^verbatim>\<open>xs[-1]\<close> raises
  \<^verbatim>\<open>IndexError\<close> on an empty list; \<^verbatim>\<open>xs[:-1]\<close> is \<open>butlast\<close>.
\<close>

definition output_names :: "str \<Rightarrow> str \<Rightarrow> str \<Rightarrow> error + (str \<times> str \<times> str)" where
  "output_names sep path ending =
     (case str_split path sep of
        Inl e \<Rightarrow> Inl e
      | Inr parts \<Rightarrow>
          if parts = [] then Inl (IndexError (str_of ''list index out of range''))
          else
            let last_part = last parts;
                first_part = str_join sep (butlast parts);
                first_part = (if first_part = [] then str_of ''.'' else first_part)
            in (case str_split last_part ending of
                  Inl e \<Rightarrow> Inl e
                | Inr pieces \<Rightarrow>
                    let filename = str_join ending (butlast pieces);
                        kyc_name = filename @ str_of ''.kyc''
                    in Inr (last_part, first_part, kyc_name)))"

text \<open>
  \<^verbatim>\<open>compile_kyc\<close> whole: the names, the text of the file, the code object that the
  built-in \<^verbatim>\<open>compile\<close> gives, its encoding, the seven items of the container, and the
  write. The first exception ends the call; the file system comes back as it then is. The
  code object is encoded by \<open>compile_code_object\<close>: the nesting of what \<^verbatim>\<open>compile\<close> returns
  is taken to stay within the recursion limit.
\<close>

definition compile_kyc ::
  "'fs host \<Rightarrow> 'fs \<Rightarrow> str \<Rightarrow> str \<Rightarrow> bool \<Rightarrow> (error + bytes) \<times> 'fs" where
  "compile_kyc h fs path ending full_pathname =
     (case output_names (path_sep h) path ending of
        Inl e \<Rightarrow> (Inl e, fs)
      | Inr (last_part, first_part, kyc_name) \<Rightarrow>
          (case read_text h fs path of
             Inl e \<Rightarrow> (Inl e, fs)
           | Inr file_data \<Rightarrow>
               let compiled_filename = (if full_pathname then path else last_part)
               in (case builtin_compile h file_data compiled_filename of
                     Inl e \<Rightarrow> (Inl e, fs)
                   | Inr compiled \<Rightarrow>
                       (case compile_code_object compiled of
                          Inl e \<Rightarrow> (Inl e, fs)
                        | Inr code_object \<Rightarrow>
                            (case sequence
                               [Inr (bytes_of ''KYCA''),
                                to_bytes (int (version_minor h)) 1 False,
                                Inr (bytes_of ''K''),
                                Inr (bytes_of ''L''),
                                Inr [0, 0, 0, 0, 0, 0, 0, 0],
                                compile_unicode_string CODE_COMMENT,
                                Inr code_object] of
                               Inl e \<Rightarrow> (Inl e, fs)
                             | Inr items \<Rightarrow>
                                 let b = concat items
                                 in (case write_bytes h fs (first_part @ path_sep h @ kyc_name) b of
                                       (Some e, fs') \<Rightarrow> (Inl e, fs')
                                     | (None, fs') \<Rightarrow> (Inr b, fs')))))))"

section \<open>The daemon\<close>

text \<open>
  The daemon's state: the lines still to come on standard input (each with its newline),
  the lines printed so far, and the file system. \<^verbatim>\<open>readline\<close> gives the empty string at
  the end of the input. Standard output is taken to accept every line.
\<close>

record 'fs daemon =
  stdin :: "str list"
  stdout :: "str list"
  files :: 'fs

definition readline :: "'fs daemon \<Rightarrow> str \<times> 'fs daemon" where
  "readline st = (case stdin st of [] \<Rightarrow> ([], st) | l # ls \<Rightarrow> (l, st\<lparr>stdin := ls\<rparr>))"

definition print :: "str \<Rightarrow> 'fs daemon \<Rightarrow> 'fs daemon" where
  "print line st = st\<lparr>stdout := stdout st @ [line]\<rparr>"

text \<open>
  One round of the \<^verbatim>\<open>while True\<close> loop (lines 253 to 267): the exception that leaves the
  loop, if any, and the state. \<^verbatim>\<open>command, *args = data.split()\<close> raises \<^verbatim>\<open>ValueError\<close> when
  the line has no token; it stands before the \<^verbatim>\<open>try\<close>. Inside the \<^verbatim>\<open>try\<close>, \<^verbatim>\<open>args[0]\<close> raises
  \<^verbatim>\<open>IndexError\<close> when there is no argument. The handlers catch \<^verbatim>\<open>SyntaxError\<close> and
  \<^verbatim>\<open>Exception\<close>; encoding the message can raise in its turn.
\<close>

definition loop_body :: "'fs host \<Rightarrow> 'fs daemon \<Rightarrow> error option \<times> 'fs daemon" where
  "loop_body h st0 =
     (let (data, st) = readline st0 in
      case str_split_ws data of
        [] \<Rightarrow>
          (Some (ValueError (str_of ''not enough values to unpack (expected at least 1, got 0)'')), st)
      | command # args \<Rightarrow>
          if command = str_of ''c'' then
            (case (case args of
                     [] \<Rightarrow> (Inl (IndexError (str_of ''list index out of range'')), files st)
                   | a # rest \<Rightarrow> compile_kyc h (files st) a (str_of ''.py'') False) of
               (Inl e, fs') \<Rightarrow>
                 if is_SyntaxError e \<or> is_Exception e then
                   (case utf8_encode (message e) of
                      Inl e' \<Rightarrow> (Some e', st\<lparr>files := fs'\<rparr>)
                    | Inr m \<Rightarrow> (None, print (str_of ''e '' @ hex m) (st\<lparr>files := fs'\<rparr>)))
                 else (Some e, st\<lparr>files := fs'\<rparr>)
             | (Inr compiled, fs') \<Rightarrow>
                 (None, print (str_of ''C '' @ hex compiled) (st\<lparr>files := fs'\<rparr>)))
          else (None, print (str_of ''u'') st))"

text \<open>
  The loop has no exit of its own: it ends only when a round raises. Not returning is the
  value \<open>None\<close>.
\<close>

partial_function (option) serve :: "'fs host \<Rightarrow> 'fs daemon \<Rightarrow> (error \<times> 'fs daemon) option" where
  "serve h st =
     (case loop_body h st of
        (Some e, st') \<Rightarrow> Some (e, st')
      | (None, st') \<Rightarrow> serve h st')"

definition ver_string :: "'fs host \<Rightarrow> str" where
  "ver_string h =
     str_nat (version_major h) @ str_of ''.'' @ str_nat (version_minor h) @ str_of ''.''
       @ str_nat (version_micro h) @ str_of ''-'' @ releaselevel h"

definition send_info :: "'fs host \<Rightarrow> 'fs daemon \<Rightarrow> 'fs daemon" where
  "send_info h st =
     print (str_of ''i py-kyc '' @ ver_string h @ str_of '' '' @ implementation_name h) st"

definition daemonise :: "'fs host \<Rightarrow> 'fs daemon \<Rightarrow> (error \<times> 'fs daemon) option" where
  "daemonise h st =
     serve h (print (str_of ''r'')
       (print (str_of ''# kyc will be compiled with version 1'') (send_info h st)))"

section \<open>A host to run the model on\<close>

text \<open>
  A host for the concrete runs below: not Windows, Python 3.8.2. Its file system is the
  list of the files written so far. Every path can be read and holds \<^verbatim>\<open>pass\<close>, but for
  \<^verbatim>\<open>bad.py\<close>, which holds a lone \<^verbatim>\<open>)\<close>, and \<^verbatim>\<open>missing.py\<close>, which cannot be opened. Its
  compiler refuses the lone \<^verbatim>\<open>)\<close> with \<^verbatim>\<open>SyntaxError\<close> and gives the code object of
  \<^verbatim>\<open>pass\<close> for every other text. Every write succeeds.
\<close>

definition demo_code :: "str \<Rightarrow> code" where
  "demo_code filename =
     Code 0 0 0 0 1 64 [0x64, 0, 0x53, 0] [PyNone] [] [] [] [] filename (str_of ''<module>'') 1 []"

definition demo_host :: "(str \<times> bytes) list host" where
  "demo_host =
     \<lparr>windows = False, version_major = 3, version_minor = 8, version_micro = 2,
      releaselevel = str_of ''final'', implementation_name = str_of ''cpython'',
      read_text = (\<lambda>fs p.
        if p = str_of ''bad.py'' then Inr (str_of '')'')
        else if p = str_of ''missing.py'' then Inl (OSError (str_of ''No such file''))
        else Inr (str_of ''pass'')),
      builtin_compile = (\<lambda>src filename.
        if src = str_of '')'' then Inl (SyntaxError (str_of ''unmatched ')' ''))
        else Inr (demo_code filename)),
      write_bytes = (\<lambda>fs p b. (None, fs @ [(p, b)]))\<rparr>"

text \<open>The container the model produces for \<^verbatim>\<open>mod/a.py\<close> on \<open>demo_host\<close>.\<close>

definition demo_kyc :: bytes where
  "demo_kyc = bytes_of ''KYCA'' @ [8] @ bytes_of ''K'' @ bytes_of ''L''
      @ [0, 0, 0, 0, 0, 0, 0, 0]
      @ (bytes_of ''s'' @ [58, 0, 0, 0]
         @ bytes_of ''This is an internal file generated by Kython. Do not edit!'')
      @ (bytes_of ''c''
         @ [0x69, 0, 0, 0, 0] @ [0x69, 0, 0, 0, 0] @ [0x69, 0, 0, 0, 0] @ [0x69, 0, 0, 0, 0]
         @ [0x69, 1, 0, 0, 0] @ [0x69, 64, 0, 0, 0]
         @ [0x62, 4, 0, 0, 0, 0x64, 0, 0x53, 0]
         @ [0x74, 1, 0, 0, 0, 0x4E] @ [0x74, 0, 0, 0, 0] @ [0x74, 0, 0, 0, 0]
         @ [0x74, 0, 0, 0, 0] @ [0x74, 0, 0, 0, 0]
         @ [0x73, 4, 0, 0, 0] @ bytes_of ''a.py''
         @ [0x73, 8, 0, 0, 0] @ bytes_of ''<module>''
         @ [0x69, 1, 0, 0, 0] @ [0x62, 0, 0, 0, 0])"

section \<open>Extensions\<close>

text \<open>
  An extension is border-free when no proper prefix of it is also a suffix of it, as for
  \<^verbatim>\<open>.py\<close>: two occurrences of such an extension in a name never overlap.
\<close>

definition border_free :: "str \<Rightarrow> bool" where
  "border_free e = list_all (\<lambda>j. take j e \<noteq> drop (length e - j) e) [1..<length e]"

section \<open>The reader's side\<close>

text \<open>
  The repository has no decoder. These two functions are what a reader of the format does
  with a length or integer field: \<^verbatim>\<open>int.from_bytes(bs, "little")\<close> and
  \<^verbatim>\<open>int.from_bytes(bs, "little", signed=True)\<close>. They are used to state what the written
  fields mean, and nowhere in the model of the writer.
\<close>

fun decode_le_unsigned :: "bytes \<Rightarrow> nat" where
  "decode_le_unsigned [] = 0"
| "decode_le_unsigned (x # xs) = unat x + 256 * decode_le_unsigned xs"

definition decode_le_signed :: "bytes \<Rightarrow> int" where
  "decode_le_signed bs =
     (let u = int (decode_le_unsigned bs)
      in if u < 2 ^ (8 * length bs - 1) then u else u - 2 ^ (8 * length bs))"

section \<open>The closed union of values\<close>






text \<open>
  The number a value's size field stands for: the byte length of a byte string, the byte
  length of the UTF-8 encoding of a text, the element count of a tuple or list, the pair
  count of a dict. The other kinds have no size field.
\<close>

fun size_field :: "val \<Rightarrow> nat option" where
  "size_field (PyBytes s) = Some (length s)"
| "size_field (PyStr u) = (case utf8_encode u of Inl e \<Rightarrow> None | Inr enc \<Rightarrow> Some (length enc))"
| "size_field (PyTuple t) = Some (length t)"
| "size_field (PyList t) = Some (length t)"
| "size_field (PyDict d) = Some (length d)"
| "size_field i = None"

text \<open>
  The number of nested calls of functions of this module that encoding a value takes: two
  for a leaf (\<^verbatim>\<open>_compile_object\<close> and the encoder of the kind), and two more than its deepest
  element for a tuple, a list or a dict. \<^verbatim>\<open>_compile_code_object\<close> calls \<^verbatim>\<open>_compile_tuple\<close>
  itself, which calls \<^verbatim>\<open>_compile_object\<close> for the elements. \<open>nested n\<close> is the empty list
  inside \<open>n\<close> one-element lists.
\<close>

definition deepest :: "nat list \<Rightarrow> nat" where
  "deepest ns = foldr max ns 0"

fun frames_needed :: "val \<Rightarrow> nat" and code_frames_needed :: "code \<Rightarrow> nat" where
  "frames_needed (PyTuple t) = 2 + deepest (map frames_needed t)"
| "frames_needed (PyList t) = 2 + deepest (map frames_needed t)"
| "frames_needed (PyDict d) =
     2 + deepest (map (\<lambda>(key, v). max (frames_needed key) (frames_needed v)) d)"
| "frames_needed (PyCode obb) = 1 + code_frames_needed obb"
| "frames_needed (PyOther nm NoCoCode) = 1"
| "frames_needed (PyOther nm (Raises e)) = 2"
| "frames_needed (PyOther nm (Like obb)) = 1 + code_frames_needed obb"
| "frames_needed (PyInt n) = 2"
| "frames_needed (PyBytes s) = 2"
| "frames_needed (PyStr u) = 2"
| "frames_needed (PyBool v) = 2"
| "frames_needed (PyFloat v) = 2"
| "frames_needed PyNone = 2"
| "code_frames_needed (Code a1 a2 a3 a4 a5 a6 cd cns names varnames freevars cellvars fn nm ln tab) =
     2 + max (deepest (map frames_needed cns))
            (max (deepest (map frames_needed names))
               (max (deepest (map frames_needed varnames))
                  (max (deepest (map frames_needed freevars))
                     (deepest (map frames_needed cellvars)))))"

fun nested :: "nat \<Rightarrow> val" where
  "nested 0 = PyList []"
| "nested (Suc n) = PyList [nested n]"

section \<open>Integer fields\<close>

lemma length_le_bytes: "length (le_bytes k n) = k"
  by (induction k arbitrary: n) auto

lemma decode_le_bytes: "decode_le_unsigned (le_bytes k n) = n mod 256 ^ k"
proof (induction k arbitrary: n)
  case 0
  then show ?case by simp
next
  case (Suc k)
  have b: "unat (of_nat (n mod 256) :: byte) = n mod 256"
    by (simp add: unat_of_nat)
  have m: "n mod (256 * 256 ^ k) = 256 * (n div 256 mod 256 ^ k) + n mod 256"
    by (rule mod_mult2_eq)
  have "decode_le_unsigned (le_bytes (Suc k) n) = n mod 256 + 256 * (n div 256 mod 256 ^ k)"
    by (simp only: le_bytes.simps decode_le_unsigned.simps b Suc.IH)
  also have "\<dots> = n mod 256 ^ Suc k"
    by (simp only: m power_Suc add.commute)
  finally show ?case .
qed

lemma le_bytes_4:
  "le_bytes 4 n =
     [of_nat (n mod 256), of_nat (n div 256 mod 256), of_nat (n div 256 div 256 mod 256),
      of_nat (n div 256 div 256 div 256 mod 256)]"
proof -
  have "(4::nat) = Suc (Suc (Suc (Suc 0)))"
    by simp
  then show ?thesis
    by (simp only: le_bytes.simps)
qed

section \<open>The dispatch of \_compile\_object\<close>

lemma isinstance_simps:
  "isinstance (PyInt n) c = (c = T_int)"
  "isinstance (PyBool v) c = (c = T_bool \<or> c = T_int)"
  "isinstance (PyBytes s) c = (c = T_bytes)"
  "isinstance (PyStr u) c = (c = T_str)"
  "isinstance (PyTuple t) c = (c = T_tuple)"
  "isinstance (PyList t) c = (c = T_list)"
  "isinstance (PyDict d) c = (c = T_dict)"
  "isinstance (PyFloat f) c = (c = T_float)"
  "isinstance (PyCode obb) c = (c = T_code)"
  "isinstance PyNone c = (c = T_NoneType)"
  "isinstance (PyOther nm dk) c = (c = T_other nm)"
  by (auto simp: isinstance_def issubclass_def)

lemma compile_object_PyInt: "compile_object (PyInt n) = compile_int n"
  by (simp add: compile_object.simps isinstance_simps)

lemma compile_object_PyBool: "compile_object (PyBool v) = compile_int (if v then 1 else 0)"
  by (simp add: compile_object.simps isinstance_simps)

text \<open>
  C1. The claim: a boolean is encoded as the single byte \<open>'-'\<close> or \<open>'+'\<close>, never as the
  5-byte integer record. The code tests \<^verbatim>\<open>isinstance(i, int)\<close> first, and a \<^verbatim>\<open>bool\<close> is an
  \<^verbatim>\<open>int\<close>: \<^verbatim>\<open>True\<close> is written as the integer 1 and \<^verbatim>\<open>False\<close> as the integer 0, five
  bytes each. The branch that calls \<^verbatim>\<open>_compile_bool\<close>, which does give the one byte, is
  never reached.
\<close>

theorem bool_encoded_as_int:
  "compile_object (PyBool True) = Inr [0x69, 1, 0, 0, 0] \<and>
   compile_object (PyBool False) = Inr [0x69, 0, 0, 0, 0] \<and>
   compile_bool True = Inr [0x2B] \<and> compile_bool False = Inr [0x2D]"
  by (simp add: compile_object_PyBool compile_int_def to_bytes_def le_bytes_4 bytes_of_def
      compile_bool_def)

text \<open>
  C3. An integer outside the signed 32-bit range is not encoded: \<^verbatim>\<open>to_bytes\<close> raises
  \<^verbatim>\<open>OverflowError\<close>, from \<^verbatim>\<open>_compile_int\<close> and so from \<^verbatim>\<open>_compile_object\<close>, and no bytes are
  returned.
\<close>

theorem compile_int_overflow:
  assumes "n < - (2 ^ 31) \<or> 2 ^ 31 \<le> n"
  shows "compile_int n = Inl (OverflowError (str_of ''int too big to convert'')) \<and>
         compile_object (PyInt n) = Inl (OverflowError (str_of ''int too big to convert'')) \<and>
         (\<forall>bs. compile_object (PyInt n) \<noteq> Inr bs)"
  using assms by (auto simp: compile_object_PyInt compile_int_def to_bytes_def)

theorem compile_int_overflow_witness:
  "compile_object (PyInt (2 ^ 31)) = Inl (OverflowError (str_of ''int too big to convert'')) \<and>
   compile_object (PyInt (- (2 ^ 31) - 1)) = Inl (OverflowError (str_of ''int too big to convert''))"
  using compile_int_overflow [of "2 ^ 31"] compile_int_overflow [of "- (2 ^ 31) - 1"] by simp

text \<open>
  C5. An integer \<open>n\<close> of the signed 32-bit range is encoded as 5 bytes: the tag \<open>'i'\<close>
  (0x69) and the four bytes, least significant first, of the 32-bit word whose two's
  complement value is \<open>n\<close>; reading the four bytes back as a little-endian signed number
  gives \<open>n\<close>.
\<close>

theorem compile_int_roundtrip:
  assumes "- (2 ^ 31) \<le> n" and "n < 2 ^ 31"
  shows "compile_object (PyInt n) = Inr (0x69 # le_bytes 4 (unat (word_of_int n :: 32 word))) \<and>
         compile_int n = compile_object (PyInt n) \<and>
         length (0x69 # le_bytes 4 (unat (word_of_int n :: 32 word))) = 5 \<and>
         sint (word_of_int n :: 32 word) = n \<and>
         decode_le_signed (le_bytes 4 (unat (word_of_int n :: 32 word))) = n"
proof -
  have u: "unat (word_of_int n :: 32 word) = nat (n mod 2 ^ 32)"
    by (simp add: unat_eq_nat_uint uint_word_of_int take_bit_eq_mod)
  have enc: "compile_int n = Inr (0x69 # le_bytes 4 (nat (n mod 2 ^ 32)))"
    using assms by (simp add: compile_int_def to_bytes_def bytes_of_def)
  have s: "sint (word_of_int n :: 32 word) = n"
    using assms by (simp add: sint_sbintrunc' signed_take_bit_int_eq_self)
  have d: "decode_le_signed (le_bytes 4 (nat (n mod 2 ^ 32))) = n"
  proof -
    have "int (decode_le_unsigned (le_bytes 4 (nat (n mod 2 ^ 32)))) = n mod 2 ^ 32"
      by (simp add: decode_le_bytes)
    moreover have "n mod 2 ^ 32 = (if 0 \<le> n then n else n + 2 ^ 32)"
    proof (cases "0 \<le> n")
      case True
      then show ?thesis using assms by simp
    next
      case False
      have "(n + 2 ^ 32) mod 2 ^ 32 = n + 2 ^ 32"
        using False assms by (intro mod_pos_pos_trivial) simp_all
      then show ?thesis using False by simp
    qed
    ultimately show ?thesis
      using assms by (auto simp: decode_le_signed_def length_le_bytes Let_def)
  qed
  show ?thesis
    using enc s d by (simp add: compile_object_PyInt u length_le_bytes)
qed

theorem compile_int_roundtrip_witness:
  "compile_object (PyInt (- 2)) = Inr [0x69, 0xFE, 0xFF, 0xFF, 0xFF] \<and>
   decode_le_signed [0xFE, 0xFF, 0xFF, 0xFF] = - 2"
  using compile_int_roundtrip [of "- 2"] by (simp add: le_bytes_4)

section \<open>Size fields\<close>

lemma to_bytes_unsigned_4:
  "to_bytes (int n) 4 False =
     (if n < 2 ^ 32 then Inr (le_bytes 4 n)
      else Inl (OverflowError (str_of ''int too big to convert'')))"
proof -
  have "(int n < 4294967296) = (n < 4294967296)"
    by linarith
  then show ?thesis
    by (simp add: to_bytes_def)
qed

lemma decode_size_field:
  assumes "n < 2 ^ 32"
  shows "decode_le_unsigned (take 4 (drop 1 (tag # le_bytes 4 n @ rest))) = n"
proof -
  have "take 4 (le_bytes 4 n @ rest) = le_bytes 4 n"
    by (simp add: length_le_bytes)
  moreover have "n mod 256 ^ 4 = n"
    using assms by simp
  ultimately show ?thesis
    by (simp add: decode_le_bytes)
qed

lemma compile_object_PyBytes: "compile_object (PyBytes s) = compile_bytestring s"
  by (simp add: compile_object.simps isinstance_simps)

lemma compile_object_PyStr: "compile_object (PyStr u) = compile_unicode_string u"
  by (simp add: compile_object.simps isinstance_simps)

lemma compile_object_PyTuple: "compile_object (PyTuple t) = compile_tuple t"
  by (simp add: compile_object.simps isinstance_simps)

lemma compile_object_PyList: "compile_object (PyList t) = compile_list t"
  by (simp add: compile_object.simps isinstance_simps)

lemma compile_object_PyDict: "compile_object (PyDict d) = compile_dict d"
  by (simp add: compile_object.simps isinstance_simps)

lemma compile_object_PyFloat: "compile_object (PyFloat v) = compile_float v"
  by (simp add: compile_object.simps isinstance_simps)

lemma compile_object_PyCode: "compile_object (PyCode obb) = compile_code_object obb"
  by (simp add: compile_object.simps isinstance_simps)

lemma compile_object_PyNone: "compile_object PyNone = compile_nonetype"
  by (simp add: compile_object.simps isinstance_simps)

lemma compile_object_PyOther:
  "compile_object (PyOther nm NoCoCode) =
     Inl (ValueError (str_of ''Unknown type '' @ repr_type (T_other nm)))"
  "compile_object (PyOther nm (Raises e)) = Inl e"
  "compile_object (PyOther nm (Like obb)) = compile_code_object obb"
  by (simp_all add: compile_object.simps isinstance_simps)

lemmas compile_object_eqs =
  compile_object_PyInt compile_object_PyBool compile_object_PyBytes compile_object_PyStr
  compile_object_PyTuple compile_object_PyList compile_object_PyDict compile_object_PyFloat
  compile_object_PyCode compile_object_PyNone compile_object_PyOther

lemma size_field_overflow:
  assumes "size_field v = Some n" and "2 ^ 32 \<le> n"
  shows "compile_object v = Inl (OverflowError (str_of ''int too big to convert''))"
proof (cases v)
  case (PyStr u)
  then show ?thesis
    using assms
    by (auto simp: compile_object_eqs compile_unicode_string_def to_bytes_unsigned_4
        split: sum.splits)
qed (use assms in \<open>auto simp: compile_object_eqs compile_bytestring_def compile_tuple.simps
      compile_list.simps compile_dict.simps to_bytes_unsigned_4\<close>)

lemma size_field_written:
  assumes "size_field v = Some n" and "compile_object v = Inr out"
  shows "n < 2 ^ 32 \<and> decode_le_unsigned (take 4 (drop 1 out)) = n"
proof -
  have lt: "n < 2 ^ 32"
    using size_field_overflow [OF assms(1)] assms(2) by (cases "n < 2 ^ 32") auto
  have "\<exists>tag rest. out = tag # le_bytes 4 n @ rest"
  proof (cases v)
    case (PyStr u)
    then show ?thesis
      using assms lt
      by (auto simp: compile_object_eqs compile_unicode_string_def to_bytes_unsigned_4
          bytes_of_def split: sum.splits if_splits)
  qed (use assms lt in \<open>auto simp: compile_object_eqs compile_bytestring_def
        compile_tuple.simps compile_list.simps compile_dict.simps to_bytes_unsigned_4
        bytes_of_def split: sum.splits if_splits\<close>)
  then show ?thesis
    using lt decode_size_field by auto
qed

text \<open>
  C10. A byte string, text, tuple, list or dict whose byte length or count is \<open>2 ^ 32\<close> or
  more is not encoded: \<^verbatim>\<open>to_bytes(length=4)\<close> raises \<^verbatim>\<open>OverflowError\<close>. Whenever such a
  value is encoded, its count is below \<open>2 ^ 32\<close> and bytes 1 to 4 of the output, read as a
  little-endian unsigned number, are the count itself: no size field is ever wrapped.
\<close>

theorem length_fields_never_wrap:
  assumes "size_field v = Some n"
  shows "(2 ^ 32 \<le> n \<longrightarrow>
           compile_object v = Inl (OverflowError (str_of ''int too big to convert''))) \<and>
         (\<forall>out. compile_object v = Inr out \<longrightarrow>
           n < 2 ^ 32 \<and> decode_le_unsigned (take 4 (drop 1 out)) = n)"
  using size_field_overflow [OF assms] size_field_written [OF assms] by blast

theorem length_fields_never_wrap_witness:
  "compile_object (PyBytes (replicate (2 ^ 32) 0)) =
     Inl (OverflowError (str_of ''int too big to convert'')) \<and>
   compile_object (PyTuple (replicate (2 ^ 32 + 5) PyNone)) =
     Inl (OverflowError (str_of ''int too big to convert'')) \<and>
   compile_object (PyList [PyNone, PyNone]) = Inr [0x6C, 2, 0, 0, 0, 0x4E, 0x4E] \<and>
   decode_le_unsigned (take 4 (drop 1 [0x6C, 2, 0, 0, 0, 0x4E, 0x4E])) = 2"
proof -
  have e: "compile_object (PyList [PyNone, PyNone]) = Inr [0x6C, 2, 0, 0, 0, 0x4E, 0x4E]"
    by (simp add: compile_object_eqs compile_list.simps to_bytes_def le_bytes_4
        compile_nonetype_def bytes_of_def)
  show ?thesis
    using length_fields_never_wrap [of "PyBytes (replicate (2 ^ 32) 0)" "2 ^ 32"]
      length_fields_never_wrap [of "PyTuple (replicate (2 ^ 32 + 5) PyNone)" "2 ^ 32 + 5"]
      length_fields_never_wrap [of "PyList [PyNone, PyNone]" 2] e
    by simp
qed

section \<open>Dicts\<close>


lemma sequence_pairs:
  "sequence (concat (map (\<lambda>(k, v). [f k, f v]) d)) = Inr items \<longleftrightarrow>
     (\<exists>encs. list_all2 (\<lambda>(k, v) (ek, ev). f k = Inr ek \<and> f v = Inr ev) d encs \<and>
        items = concat (map (\<lambda>(ek, ev). [ek, ev]) encs))"
proof (induction d arbitrary: items)
  case Nil
  then show ?case by auto
next
  case (Cons p d)
  obtain k v where p: "p = (k, v)"
    by (cases p)
  show ?case
  proof
    assume a: "sequence (concat (map (\<lambda>(k, v). [f k, f v]) (p # d))) = Inr items"
    then obtain ek ev rest where k: "f k = Inr ek" and v: "f v = Inr ev"
      and r: "sequence (concat (map (\<lambda>(k, v). [f k, f v]) d)) = Inr rest"
      and i: "items = ek # ev # rest"
      unfolding p by (cases "f k"; cases "f v") (auto split: sum.splits)
    from r Cons.IH obtain encs where
      "list_all2 (\<lambda>(k, v) (ek, ev). f k = Inr ek \<and> f v = Inr ev) d encs"
      "rest = concat (map (\<lambda>(ek, ev). [ek, ev]) encs)"
      by blast
    then have "list_all2 (\<lambda>(k, v) (ek, ev). f k = Inr ek \<and> f v = Inr ev) (p # d) ((ek, ev) # encs)
      \<and> items = concat (map (\<lambda>(ek, ev). [ek, ev]) ((ek, ev) # encs))"
      using k v i p by simp
    then show "\<exists>encs. list_all2 (\<lambda>(k, v) (ek, ev). f k = Inr ek \<and> f v = Inr ev) (p # d) encs \<and>
        items = concat (map (\<lambda>(ek, ev). [ek, ev]) encs)"
      by blast
  next
    assume "\<exists>encs. list_all2 (\<lambda>(k, v) (ek, ev). f k = Inr ek \<and> f v = Inr ev) (p # d) encs \<and>
        items = concat (map (\<lambda>(ek, ev). [ek, ev]) encs)"
    then obtain encs where l: "list_all2 (\<lambda>(k, v) (ek, ev). f k = Inr ek \<and> f v = Inr ev) (p # d) encs"
      and i: "items = concat (map (\<lambda>(ek, ev). [ek, ev]) encs)"
      by blast
    from l obtain e encs' where e: "encs = e # encs'"
      and h: "(\<lambda>(k, v) (ek, ev). f k = Inr ek \<and> f v = Inr ev) p e"
      and t: "list_all2 (\<lambda>(k, v) (ek, ev). f k = Inr ek \<and> f v = Inr ev) d encs'"
      by (auto simp: list_all2_Cons1)
    obtain ek ev where e': "e = (ek, ev)"
      by (cases e)
    have "sequence (concat (map (\<lambda>(k, v). [f k, f v]) d)) = Inr (concat (map (\<lambda>(ek, ev). [ek, ev]) encs'))"
      using Cons.IH t by blast
    then show "sequence (concat (map (\<lambda>(k, v). [f k, f v]) (p # d))) = Inr items"
      using h i e e' p by simp
  qed
qed

lemma concat_pairs: "concat (concat (map (\<lambda>(ek, ev). [ek, ev]) encs)) = concat (map (\<lambda>(ek, ev). ek @ ev) encs)"
  by (induction encs) auto

text \<open>
  C6. A dict is encoded exactly when it has fewer than \<open>2 ^ 32\<close> items and each of its keys
  and values is encoded. The encoding is then the tag \<open>'d'\<close> (0x64), the pair count in 4
  little-endian bytes, and, pair by pair in the order of the dict's items, the encoding of
  the key followed by the encoding of the value; and the 4 bytes read back as the count.
\<close>

theorem compile_dict_layout:
  "(compile_object (PyDict d) = Inr out \<longleftrightarrow>
      length d < 2 ^ 32 \<and>
      (\<exists>encs. list_all2 (\<lambda>(k, v) (ek, ev). compile_object k = Inr ek \<and> compile_object v = Inr ev) d encs \<and>
         out = 0x64 # le_bytes 4 (length d) @ concat (map (\<lambda>(ek, ev). ek @ ev) encs))) \<and>
   (length d < 2 ^ 32 \<longrightarrow> decode_le_unsigned (le_bytes 4 (length d)) = length d)"
proof (intro conjI iffI impI)
  assume "compile_object (PyDict d) = Inr out"
  then have c: "compile_dict d = Inr out"
    by (simp add: compile_object_PyDict)
  then show lt: "length d < 2 ^ 32"
    by (auto simp: compile_dict.simps to_bytes_unsigned_4 split: if_splits)
  from c lt obtain items where
    s: "sequence (concat (map (\<lambda>(k, v). [compile_object k, compile_object v]) d)) = Inr items"
    and o: "out = 0x64 # le_bytes 4 (length d) @ concat items"
    by (auto simp: compile_dict.simps to_bytes_unsigned_4 bytes_of_def split: sum.splits)
  from s obtain encs where
    l: "list_all2 (\<lambda>(k, v) (ek, ev). compile_object k = Inr ek \<and> compile_object v = Inr ev) d encs"
    and i: "items = concat (map (\<lambda>(ek, ev). [ek, ev]) encs)"
    unfolding sequence_pairs by blast
  have "out = 0x64 # le_bytes 4 (length d) @ concat (map (\<lambda>(ek, ev). ek @ ev) encs)"
    using o i by (simp add: concat_pairs)
  then show "\<exists>encs. list_all2 (\<lambda>(k, v) (ek, ev). compile_object k = Inr ek \<and> compile_object v = Inr ev) d encs \<and>
         out = 0x64 # le_bytes 4 (length d) @ concat (map (\<lambda>(ek, ev). ek @ ev) encs)"
    using l by blast
next
  assume a: "length d < 2 ^ 32 \<and>
      (\<exists>encs. list_all2 (\<lambda>(k, v) (ek, ev). compile_object k = Inr ek \<and> compile_object v = Inr ev) d encs \<and>
         out = 0x64 # le_bytes 4 (length d) @ concat (map (\<lambda>(ek, ev). ek @ ev) encs))"
  then obtain encs where lt: "length d < 2 ^ 32"
    and l: "list_all2 (\<lambda>(k, v) (ek, ev). compile_object k = Inr ek \<and> compile_object v = Inr ev) d encs"
    and o: "out = 0x64 # le_bytes 4 (length d) @ concat (map (\<lambda>(ek, ev). ek @ ev) encs)"
    by blast
  have s: "sequence (concat (map (\<lambda>(k, v). [compile_object k, compile_object v]) d)) =
        Inr (concat (map (\<lambda>(ek, ev). [ek, ev]) encs))"
    unfolding sequence_pairs using l by blast
  show "compile_object (PyDict d) = Inr out"
    using lt s o by (simp add: compile_object_PyDict compile_dict.simps to_bytes_unsigned_4
        bytes_of_def concat_pairs)
next
  assume "length d < 2 ^ 32"
  then show "decode_le_unsigned (le_bytes 4 (length d)) = length d"
    by (simp add: decode_le_bytes)
qed

lemma utf8_ascii_b: "utf8_encode (str_of ''b'') = Inr [0x62]"
  by (simp add: utf8_encode_def utf8_char_def is_surrogate_def str_of_def)

lemma utf8_ascii_a: "utf8_encode (str_of ''a'') = Inr [0x61]"
  by (simp add: utf8_encode_def utf8_char_def is_surrogate_def str_of_def)

theorem compile_dict_layout_witness:
  "compile_object (PyDict [(PyInt 2, PyStr (str_of ''b'')), (PyInt 1, PyStr (str_of ''a''))]) =
     Inr [0x64, 2, 0, 0, 0, 0x69, 2, 0, 0, 0, 0x73, 1, 0, 0, 0, 0x62,
          0x69, 1, 0, 0, 0, 0x73, 1, 0, 0, 0, 0x61] \<and>
   decode_le_unsigned (le_bytes 4 (length [(PyInt 2, PyStr (str_of ''b'')), (PyInt 1, PyStr (str_of ''a''))])) = 2"
proof -
  have k: "compile_object (PyInt 2) = Inr [0x69, 2, 0, 0, 0]"
    "compile_object (PyInt 1) = Inr [0x69, 1, 0, 0, 0]"
    "compile_object (PyStr (str_of ''b'')) = Inr [0x73, 1, 0, 0, 0, 0x62]"
    "compile_object (PyStr (str_of ''a'')) = Inr [0x73, 1, 0, 0, 0, 0x61]"
    by (simp_all add: compile_object_eqs to_bytes_unsigned_4 le_bytes_4
        compile_int_def to_bytes_def compile_unicode_string_def utf8_ascii_a utf8_ascii_b
        bytes_of_def)
  have l: "list_all2 (\<lambda>(k, v) (ek, ev). compile_object k = Inr ek \<and> compile_object v = Inr ev)
      [(PyInt 2, PyStr (str_of ''b'')), (PyInt 1, PyStr (str_of ''a''))]
      [([0x69, 2, 0, 0, 0], [0x73, 1, 0, 0, 0, 0x62]), ([0x69, 1, 0, 0, 0], [0x73, 1, 0, 0, 0, 0x61])]"
    by (simp add: k)
  have o: "[0x64, 2, 0, 0, 0, 0x69, 2, 0, 0, 0, 0x73, 1, 0, 0, 0, 0x62,
          0x69, 1, 0, 0, 0, 0x73, 1, 0, 0, 0, 0x61] =
      0x64 # le_bytes 4 (length [(PyInt 2, PyStr (str_of ''b'')), (PyInt 1, PyStr (str_of ''a''))])
        @ concat (map (\<lambda>(ek, ev). ek @ ev)
           [([0x69, 2, 0, 0, 0], [0x73, 1, 0, 0, 0, 0x62::byte]), ([0x69, 1, 0, 0, 0], [0x73, 1, 0, 0, 0, 0x61])])"
    by (simp add: le_bytes_4)
  have e: "compile_object (PyDict [(PyInt 2, PyStr (str_of ''b'')), (PyInt 1, PyStr (str_of ''a''))]) =
     Inr [0x64, 2, 0, 0, 0, 0x69, 2, 0, 0, 0, 0x73, 1, 0, 0, 0, 0x62,
          0x69, 1, 0, 0, 0, 0x73, 1, 0, 0, 0, 0x61]"
  proof (rule compile_dict_layout [THEN conjunct1, THEN iffD2], intro conjI exI)
    show "length [(PyInt 2, PyStr (str_of ''b'')), (PyInt 1, PyStr (str_of ''a''))] < 2 ^ 32"
      by simp
    show "list_all2 (\<lambda>(k, v) (ek, ev). compile_object k = Inr ek \<and> compile_object v = Inr ev)
      [(PyInt 2, PyStr (str_of ''b'')), (PyInt 1, PyStr (str_of ''a''))]
      [([0x69, 2, 0, 0, 0], [0x73, 1, 0, 0, 0, 0x62]), ([0x69, 1, 0, 0, 0], [0x73, 1, 0, 0, 0, 0x61])]"
      by (rule l)
    show "[0x64, 2, 0, 0, 0, 0x69, 2, 0, 0, 0, 0x73, 1, 0, 0, 0, 0x62,
          0x69, 1, 0, 0, 0, 0x73, 1, 0, 0, 0, 0x61] =
      0x64 # le_bytes 4 (length [(PyInt 2, PyStr (str_of ''b'')), (PyInt 1, PyStr (str_of ''a''))])
        @ concat (map (\<lambda>(ek, ev). ek @ ev)
           [([0x69, 2, 0, 0, 0], [0x73, 1, 0, 0, 0, 0x62::byte]), ([0x69, 1, 0, 0, 0], [0x73, 1, 0, 0, 0, 0x61])])"
      by (rule o)
  qed
  have d: "decode_le_unsigned (le_bytes 4 (length [(PyInt 2, PyStr (str_of ''b'')), (PyInt 1, PyStr (str_of ''a''))])) = 2"
    using compile_dict_layout [of "[(PyInt 2, PyStr (str_of ''b'')), (PyInt 1, PyStr (str_of ''a''))]", THEN conjunct2]
    by simp
  show ?thesis
    using e d by (rule conjI)
qed

section \<open>Totality of the encoder\<close>






text \<open>
  A lone surrogate in a text is refused, with the message of Python's \<^verbatim>\<open>UnicodeEncodeError\<close>.
\<close>

lemma lone_surrogate_refused:
  "compile_object (PyStr (str_of ''ab'' @ [0xDC80])) =
     Inl (UnicodeEncodeError
       ([39] @ str_of ''utf-8'' @ [39] @ str_of '' codec can't encode character ''
          @ [39, 92] @ str_of ''udc80'' @ [39] @ str_of '' in position 2: surrogates not allowed''))"
  by (simp add: compile_object_PyStr compile_unicode_string_def utf8_encode_def utf8_char_def
      is_surrogate_def surrogate_message_def hexdigit_def str_of_def)

subsection \<open>The recursion limit\<close>










lemma frames_needed_nested: "frames_needed (nested n) = 2 * n + 2"
  by (induction n) (simp_all add: deepest_def)




lemma code_demo:
  "compile_code_object (demo_code (str_of ''a.py'')) =
     Inr (bytes_of ''c''
          @ [0x69, 0, 0, 0, 0] @ [0x69, 0, 0, 0, 0] @ [0x69, 0, 0, 0, 0] @ [0x69, 0, 0, 0, 0]
          @ [0x69, 1, 0, 0, 0] @ [0x69, 64, 0, 0, 0]
          @ [0x62, 4, 0, 0, 0, 0x64, 0, 0x53, 0]
          @ [0x74, 1, 0, 0, 0, 0x4E] @ [0x74, 0, 0, 0, 0] @ [0x74, 0, 0, 0, 0]
          @ [0x74, 0, 0, 0, 0] @ [0x74, 0, 0, 0, 0]
          @ [0x73, 4, 0, 0, 0] @ bytes_of ''a.py''
          @ [0x73, 8, 0, 0, 0] @ bytes_of ''<module>''
          @ [0x69, 1, 0, 0, 0] @ [0x62, 0, 0, 0, 0])"
  by (simp add: compile_code_object.simps demo_code_def compile_int_def
      compile_bytestring_def compile_tuple.simps compile_unicode_string_def
      compile_object_PyNone compile_nonetype_def utf8_encode_def utf8_char_def is_surrogate_def
      str_of_def bytes_of_def to_bytes_def le_bytes_4)




section \<open>The container\<close>

lemma to_bytes_unsigned_1:
  "to_bytes (int n) 1 False =
     (if n < 256 then Inr [of_nat n]
      else Inl (OverflowError (str_of ''int too big to convert'')))"
proof -
  have "(int n < 256) = (n < 256)"
    by linarith
  moreover have "(word_of_nat (n mod 256) :: byte) = word_of_nat n"
    by (simp add: word_of_nat_eq_iff take_bit_eq_mod)
  ultimately show ?thesis
    by (simp add: to_bytes_def)
qed

lemma to_bytes_unsigned_Suc_0:
  "to_bytes (int n) (Suc 0) False =
     (if n < 256 then Inr [of_nat n]
      else Inl (OverflowError (str_of ''int too big to convert'')))"
  using to_bytes_unsigned_1 [of n] by simp

lemma header_items:
  "sequence [Inr a, to_bytes (int n) 1 False, Inr k, Inr l, Inr z, cu, Inr unit] = Inr items \<longleftrightarrow>
     n < 256 \<and> (\<exists>comment. cu = Inr comment \<and> items = [a, [of_nat n], k, l, z, comment, unit])"
  by (cases cu) (auto simp: to_bytes_unsigned_Suc_0)

lemma compile_unicode_string_tag:
  "compile_unicode_string u = Inr out \<Longrightarrow> \<exists>rest. out = 0x73 # rest"
  by (auto simp: compile_unicode_string_def bytes_of_def split: sum.splits)

lemma compile_code_object_tag:
  "compile_code_object obb = Inr out \<Longrightarrow> \<exists>rest. out = 0x63 # rest"
  by (auto simp: compile_code_object.simps bytes_of_def split: sum.splits)

lemma compile_kyc_success:
  assumes "compile_kyc h fs path ending full_pathname = (Inr b, fs')"
  shows "\<exists>last_part first_part kyc_name file_data compiled unit comment.
           output_names (path_sep h) path ending = Inr (last_part, first_part, kyc_name) \<and>
           read_text h fs path = Inr file_data \<and>
           builtin_compile h file_data (if full_pathname then path else last_part) = Inr compiled \<and>
           compile_code_object compiled = Inr unit \<and>
           version_minor h < 256 \<and>
           compile_unicode_string CODE_COMMENT = Inr comment \<and>
           b = bytes_of ''KYCA'' @ [of_nat (version_minor h)] @ bytes_of ''K'' @ bytes_of ''L''
                 @ [0, 0, 0, 0, 0, 0, 0, 0] @ comment @ unit \<and>
           write_bytes h fs (first_part @ path_sep h @ kyc_name) b = (None, fs')"
  using assms
  by (auto simp: compile_kyc_def Let_def header_items simp del: sequence.simps One_nat_def
      split: sum.splits prod.splits if_splits option.splits)

text \<open>
  C2. When \<^verbatim>\<open>compile_kyc\<close> returns, the bytes begin with \<open>KYCA\<close>; byte 4 is the minor
  version of the running Python (which is then below 256); bytes 5 and 6 are \<open>'K'\<close> and
  \<open>'L'\<close>; bytes 7 to 14 are zero; and from byte 15 on come the encoded comment, which
  starts with the tag \<open>'s'\<close>, and then the encoding of one code object, which starts with the
  tag \<open>'c'\<close>, and nothing after it.
\<close>

theorem container_layout:
  assumes "compile_kyc h fs path ending full_pathname = (Inr b, fs')"
  shows "take 4 b = bytes_of ''KYCA'' \<and>
         version_minor h < 256 \<and> unat (b ! 4) = version_minor h \<and>
         b ! 5 = 0x4B \<and> b ! 6 = 0x4C \<and>
         take 8 (drop 7 b) = [0, 0, 0, 0, 0, 0, 0, 0] \<and>
         (\<exists>comment unit compiled.
            compile_unicode_string CODE_COMMENT = Inr comment \<and> hd comment = 0x73 \<and>
            compile_code_object compiled = Inr unit \<and> hd unit = 0x63 \<and>
            drop 15 b = comment @ unit)"
proof -
  from compile_kyc_success [OF assms] obtain compiled unit comment where
    u: "compile_code_object compiled = Inr unit" and
    v: "version_minor h < 256" and
    c: "compile_unicode_string CODE_COMMENT = Inr comment" and
    b: "b = bytes_of ''KYCA'' @ [of_nat (version_minor h)] @ bytes_of ''K'' @ bytes_of ''L''
                 @ [0, 0, 0, 0, 0, 0, 0, 0] @ comment @ unit"
    by blast
  have b': "b = [0x4B, 0x59, 0x43, 0x41, of_nat (version_minor h), 0x4B, 0x4C,
                 0, 0, 0, 0, 0, 0, 0, 0] @ (comment @ unit)"
    using b by (simp add: bytes_of_def)
  have m: "unat (of_nat (version_minor h) :: byte) = version_minor h"
    using v by (simp add: unat_of_nat)
  have "hd comment = 0x73"
    using compile_unicode_string_tag [OF c] by auto
  moreover have "hd unit = 0x63"
    using compile_code_object_tag [OF u] by auto
  moreover have "take 4 b = bytes_of ''KYCA''" "b ! 4 = of_nat (version_minor h)"
    "b ! 5 = 0x4B" "b ! 6 = 0x4C" "take 8 (drop 7 b) = [0, 0, 0, 0, 0, 0, 0, 0]"
    "drop 15 b = comment @ unit"
    unfolding b' by (simp_all add: bytes_of_def)
  ultimately show ?thesis
    using u v c m by auto
qed

lemma output_names_demo:
  "output_names (str_of ''/'') (str_of ''mod/a.py'') (str_of ''.py'') =
     Inr (str_of ''a.py'', str_of ''mod'', str_of ''a.kyc'')"
  by (simp add: output_names_def str_split_def str_of_def)

lemma comment_demo:
  "compile_unicode_string CODE_COMMENT =
     Inr (bytes_of ''s'' @ [58, 0, 0, 0]
          @ bytes_of ''This is an internal file generated by Kython. Do not edit!'')"
  by (simp add: compile_unicode_string_def CODE_COMMENT_def utf8_encode_def utf8_char_def is_surrogate_def
      str_of_def bytes_of_def to_bytes_def le_bytes_4)

lemma demo_host_simps:
  "path_sep demo_host = str_of ''/''"
  "version_minor demo_host = 8"
  "read_text demo_host fs (str_of ''mod/a.py'') = Inr (str_of ''pass'')"
  "read_text demo_host fs (str_of ''notes.txt'') = Inr (str_of ''pass'')"
  "read_text demo_host fs (str_of ''/a.py'') = Inr (str_of ''pass'')"
  "builtin_compile demo_host (str_of ''pass'') filename = Inr (demo_code filename)"
  "write_bytes demo_host fs p b = (None, fs @ [(p, b)])"
  by (simp_all add: demo_host_def path_sep_def str_of_def)

lemma demo_run:
  "compile_kyc demo_host [] (str_of ''mod/a.py'') (str_of ''.py'') False =
     (Inr demo_kyc, [(str_of ''mod/a.kyc'', demo_kyc)])"
proof -
  have p: "str_of ''mod'' @ str_of ''/'' @ str_of ''a.kyc'' = str_of ''mod/a.kyc''"
    by (simp add: str_of_def)
  show ?thesis
    unfolding demo_kyc_def
    by (simp add: compile_kyc_def demo_host_simps output_names_demo comment_demo code_demo
        to_bytes_def p Let_def)
qed

lemma demo_kyc_bytes:
  "take 5 (drop 15 demo_kyc) = [0x73, 58, 0, 0, 0]" "demo_kyc ! 78 = 0x63"
  "length demo_kyc = 176"
  unfolding demo_kyc_def by (simp_all add: bytes_of_def)

theorem container_layout_witness:
  "compile_kyc demo_host [] (str_of ''mod/a.py'') (str_of ''.py'') False =
     (Inr demo_kyc, [(str_of ''mod/a.kyc'', demo_kyc)]) \<and>
   take 4 demo_kyc = bytes_of ''KYCA'' \<and> unat (demo_kyc ! 4) = 8 \<and>
   demo_kyc ! 5 = 0x4B \<and> demo_kyc ! 6 = 0x4C \<and>
   take 8 (drop 7 demo_kyc) = [0, 0, 0, 0, 0, 0, 0, 0] \<and>
   take 5 (drop 15 demo_kyc) = [0x73, 58, 0, 0, 0] \<and> demo_kyc ! 78 = 0x63 \<and>
   length demo_kyc = 176"
proof -
  have c: "take 4 demo_kyc = bytes_of ''KYCA''" "unat (demo_kyc ! 4) = version_minor demo_host"
    "demo_kyc ! 5 = 0x4B" "demo_kyc ! 6 = 0x4C"
    "take 8 (drop 7 demo_kyc) = [0, 0, 0, 0, 0, 0, 0, 0]"
    using container_layout [OF demo_run] by simp_all
  show ?thesis
    by (simp add: demo_run demo_kyc_bytes c demo_host_simps)
qed

section \<open>The name of the output file\<close>

lemma split_from_nonempty: "split_from sep cur s \<noteq> []"
  by (induction sep cur s rule: split_from.induct) auto

lemma str_join_Cons: "ps \<noteq> [] \<Longrightarrow> str_join sep (x # ps) = x @ sep @ str_join sep ps"
  by (cases ps) auto

lemma str_join_split_from: "sep \<noteq> [] \<Longrightarrow> str_join sep (split_from sep cur s) = cur @ s"
proof (induction sep cur s rule: split_from.induct)
  case (1 sep cur)
  then show ?case by simp
next
  case (2 sep cur c cs)
  show ?case
  proof (cases "take (length sep) (c # cs) = sep")
    case True
    have "str_join sep (split_from sep cur (c # cs)) =
        cur @ sep @ str_join sep (split_from sep [] (drop (length sep) (c # cs)))"
      using True 2(3) by (simp add: str_join_Cons split_from_nonempty)
    also have "\<dots> = cur @ sep @ drop (length sep) (c # cs)"
      using 2(1) True 2(3) by simp
    also have "\<dots> = cur @ take (length sep) (c # cs) @ drop (length sep) (c # cs)"
      using True by simp
    finally show ?thesis
      by (simp only: append_take_drop_id)
  next
    case False
    then show ?thesis
      using 2(2) 2(3) by simp
  qed
qed

lemma border_free_py: "border_free (str_of ''.py'')"
  by (simp add: border_free_def str_of_def upt_rec)

lemma border_freeD:
  "border_free e \<Longrightarrow> 0 < j \<Longrightarrow> j < length e \<Longrightarrow> take j e \<noteq> drop (length e - j) e"
  by (simp add: border_free_def list_all_iff)

lemma split_from_two_pieces:
  "sep \<noteq> [] \<Longrightarrow> s = x @ sep @ y \<Longrightarrow> 2 \<le> length (split_from sep cur s)"
proof (induction sep cur s arbitrary: x rule: split_from.induct)
  case (1 sep cur)
  then show ?case by simp
next
  case (2 sep cur c cs)
  show ?case
  proof (cases "take (length sep) (c # cs) = sep")
    case True
    then show ?thesis
      using 2(3) split_from_nonempty [of sep "[]" "drop (length sep) (c # cs)"]
      by (cases "split_from sep [] (drop (length sep) (c # cs))") auto
  next
    case False
    have "x \<noteq> []"
    proof
      assume "x = []"
      then have "take (length sep) (c # cs) = sep"
        using 2(4) by simp
      then show False using False by simp
    qed
    then obtain x' where "x = c # x'" "cs = x' @ sep @ y"
      using 2(4) by (cases x) auto
    then show ?thesis
      using 2(2) [of x'] 2(3) False by simp
  qed
qed

lemma overlap_border:
  assumes "take (length sep) (stem @ sep) = sep" and "stem \<noteq> []" and "length stem < length sep"
  shows "take (length sep - length stem) sep = drop (length stem) sep"
proof -
  have "drop (length stem) (take (length sep) (stem @ sep)) = drop (length stem) sep"
    using assms(1) by simp
  then show ?thesis
    using assms(3) by (simp add: drop_take)
qed

lemma split_from_strip:
  "sep \<noteq> [] \<Longrightarrow> border_free sep \<Longrightarrow> s = stem @ sep \<Longrightarrow>
     str_join sep (butlast (split_from sep cur s)) = cur @ stem"
proof (induction sep cur s arbitrary: stem rule: split_from.induct)
  case (1 sep cur)
  then show ?case by simp
next
  case (2 sep cur c cs)
  show ?case
  proof (cases "take (length sep) (c # cs) = sep")
    case True
    let ?ps = "split_from sep [] (drop (length sep) (c # cs))"
    have sp: "split_from sep cur (c # cs) = cur # ?ps"
      using True 2(3) by simp
    show ?thesis
    proof (cases "stem = []")
      case True
      then have "drop (length sep) (c # cs) = []"
        using 2(5) by simp
      then show ?thesis
        using sp True by simp
    next
      case False
      have ge: "length sep \<le> length stem"
      proof (rule ccontr)
        assume "\<not> length sep \<le> length stem"
        then have lt: "length stem < length sep"
          by simp
        have "take (length sep - length stem) sep = drop (length stem) sep"
          using overlap_border [of sep stem] True 2(5) False lt by simp
        moreover have "drop (length sep - (length sep - length stem)) sep = drop (length stem) sep"
          using lt by simp
        ultimately have "take (length sep - length stem) sep
            = drop (length sep - (length sep - length stem)) sep"
          by simp
        moreover have "0 < length stem"
          using False by simp
        then have "0 < length sep - length stem" "length sep - length stem < length sep"
          using lt by linarith+
        ultimately show False
          using border_freeD [OF 2(4)] by blast
      qed
      then have "take (length sep) stem = sep"
        using True 2(5) by simp
      then obtain stem' where st: "stem = sep @ stem'"
        by (metis append_take_drop_id)
      then have d: "drop (length sep) (c # cs) = stem' @ sep"
        using 2(5) by simp
      have "str_join sep (butlast ?ps) = [] @ stem'"
        using 2(1) [OF _ 2(3) 2(4) d] True 2(3) by simp
      moreover have "2 \<le> length ?ps"
        using split_from_two_pieces [OF 2(3), of "drop (length sep) (c # cs)" stem' "[]" "[]"] d
        by simp
      then have "butlast ?ps \<noteq> []" "?ps \<noteq> []"
        by (cases ?ps; cases "tl ?ps"; simp)+
      ultimately show ?thesis
        using sp st by (simp add: str_join_Cons)
    qed
  next
    case False
    have "stem \<noteq> []"
    proof
      assume "stem = []"
      then have "take (length sep) (c # cs) = sep"
        using 2(5) by simp
      then show False using False by simp
    qed
    then obtain stem' where "stem = c # stem'" "cs = stem' @ sep"
      using 2(5) by (cases stem) auto
    then show ?thesis
      using 2(2) [of stem'] 2(3) 2(4) False by simp
  qed
qed

lemma split_from_char_append:
  "split_from [c] cur (xs @ c # name) = split_from [c] cur xs @ split_from [c] [] name"
  by (induction xs arbitrary: cur) auto

lemma split_from_char_none: "c \<notin> set name \<Longrightarrow> split_from [c] cur name = [cur @ name]"
  by (induction name arbitrary: cur) auto

lemma path_sep_char: "\<exists>c. path_sep h = [c]"
  by (simp add: path_sep_def str_of_def)

lemma output_names_dir:
  assumes "sep = [c]" and "c \<notin> set name"
  shows "output_names sep (dir @ sep @ name) ending =
           (case str_split name ending of
              Inl e \<Rightarrow> Inl e
            | Inr pieces \<Rightarrow>
                Inr (name, if dir = [] then str_of ''.'' else dir,
                     str_join ending (butlast pieces) @ str_of ''.kyc''))"
proof -
  have "split_from [c] [] (dir @ c # name) = split_from [c] [] dir @ [name]"
    using assms(2) by (simp add: split_from_char_append split_from_char_none)
  moreover have "str_join [c] (split_from [c] [] dir) = dir"
    using str_join_split_from [of "[c]" "[]" dir] by simp
  ultimately show ?thesis
    using assms(1) by (simp add: output_names_def str_split_def Let_def split: sum.splits)
qed

lemma output_names_bare:
  assumes "sep = [c]" and "c \<notin> set name"
  shows "output_names sep name ending =
           (case str_split name ending of
              Inl e \<Rightarrow> Inl e
            | Inr pieces \<Rightarrow>
                Inr (name, str_of ''.'', str_join ending (butlast pieces) @ str_of ''.kyc''))"
  using assms
  by (simp add: output_names_def str_split_def Let_def split_from_char_none split: sum.splits)

text \<open>
  Where lines 181 to 187 do what they are written for. Let the extension be border-free (as
  \<^verbatim>\<open>.py\<close> is) and the file name be \<open>stem @ ending\<close>, with no separator in it. When
  \<^verbatim>\<open>compile_kyc\<close> returns, it has written its bytes to \<open>stem @ ".kyc"\<close> in the directory of
  the input: to \<open>dir/stem.kyc\<close> for the path \<open>dir/stem.py\<close> with a directory part that is not
  empty, and to \<open>./stem.kyc\<close> for a path with no directory part.
\<close>

lemma kyc_written_next_to_input:
  assumes "compile_kyc h fs path ending full_pathname = (Inr b, fs')"
    and "ending \<noteq> []" and "border_free ending"
    and "set (path_sep h) \<inter> set (stem @ ending) = {}"
  shows "(dir \<noteq> [] \<and> path = dir @ path_sep h @ stem @ ending \<longrightarrow>
            write_bytes h fs (dir @ path_sep h @ stem @ str_of ''.kyc'') b = (None, fs')) \<and>
         (path = stem @ ending \<longrightarrow>
            write_bytes h fs (str_of ''.'' @ path_sep h @ stem @ str_of ''.kyc'') b = (None, fs'))"
proof -
  obtain c where c: "path_sep h = [c]"
    using path_sep_char by blast
  have n: "c \<notin> set (stem @ ending)"
    using assms(4) c by auto
  have j: "str_join ending (butlast (split_from ending [] (stem @ ending))) = stem"
    using split_from_strip [OF assms(2) assms(3), of "stem @ ending" stem "[]"] by simp
  have sp: "str_split (stem @ ending) ending = Inr (split_from ending [] (stem @ ending))"
    using assms(2) by (simp add: str_split_def)
  from compile_kyc_success [OF assms(1)] obtain last_part first_part kyc_name where
    o: "output_names (path_sep h) path ending = Inr (last_part, first_part, kyc_name)" and
    w: "write_bytes h fs (first_part @ path_sep h @ kyc_name) b = (None, fs')"
    by blast
  show ?thesis
  proof (intro conjI impI)
    assume "dir \<noteq> [] \<and> path = dir @ path_sep h @ stem @ ending"
    then have "first_part = dir \<and> kyc_name = stem @ str_of ''.kyc''"
      using o output_names_dir [OF c n, of dir ending] sp j by simp
    then show "write_bytes h fs (dir @ path_sep h @ stem @ str_of ''.kyc'') b = (None, fs')"
      using w by simp
  next
    assume "path = stem @ ending"
    then have "first_part = str_of ''.'' \<and> kyc_name = stem @ str_of ''.kyc''"
      using o output_names_bare [OF c n, of ending] sp j by simp
    then show "write_bytes h fs (str_of ''.'' @ path_sep h @ stem @ str_of ''.kyc'') b = (None, fs')"
      using w by simp
  qed
qed

lemma kyc_written_next_to_input_demo:
  "compile_kyc demo_host [] (str_of ''mod/a.py'') (str_of ''.py'') False =
     (Inr demo_kyc, [(str_of ''mod/a.kyc'', demo_kyc)]) \<and>
   border_free (str_of ''.py'') \<and>
   write_bytes demo_host [] (str_of ''mod'' @ path_sep demo_host @ str_of ''a'' @ str_of ''.kyc'')
     demo_kyc = (None, [(str_of ''mod/a.kyc'', demo_kyc)])"
proof -
  have "str_of ''.py'' \<noteq> []"
    "set (path_sep demo_host) \<inter> set (str_of ''a'' @ str_of ''.py'') = {}"
    "str_of ''mod'' \<noteq> []"
    "str_of ''mod/a.py'' = str_of ''mod'' @ path_sep demo_host @ str_of ''a'' @ str_of ''.py''"
    by (simp_all add: str_of_def path_sep_def demo_host_def)
  then show ?thesis
    using kyc_written_next_to_input [OF demo_run _ border_free_py, of "str_of ''a''" "str_of ''mod''"]
      demo_run border_free_py
    by simp
qed

lemma output_names_notes:
  "output_names (str_of ''/'') (str_of ''notes.txt'') (str_of ''.py'') =
     Inr (str_of ''notes.txt'', str_of ''.'', str_of ''.kyc'')"
  by (simp add: output_names_def str_split_def str_of_def)

lemma code_demo_notes:
  "\<exists>unit. compile_code_object (demo_code (str_of ''notes.txt'')) = Inr unit"
  by (simp add: compile_code_object.simps demo_code_def compile_int_def
      compile_bytestring_def compile_tuple.simps compile_unicode_string_def
      compile_object_PyNone compile_nonetype_def utf8_encode_def utf8_char_def is_surrogate_def
      str_of_def bytes_of_def to_bytes_def le_bytes_4)

text \<open>
  C7. The claim: for every input path the output is written in the directory of the input,
  under the file name with the extension removed and \<^verbatim>\<open>.kyc\<close> appended. Lines 181 to 187
  split the file name at every occurrence of the extension, drop the last piece and join
  the others again, and take \<^verbatim>\<open>.\<close> for an empty directory part. So for \<^verbatim>\<open>notes.txt\<close> and
  the extension \<^verbatim>\<open>.py\<close> the output name is \<^verbatim>\<open>.kyc\<close>: the whole file name is lost, and
  \<^verbatim>\<open>compile_kyc\<close> writes \<^verbatim>\<open>./.kyc\<close>. For \<^verbatim>\<open>src/a.py.bak\<close> the name is \<^verbatim>\<open>a.kyc\<close>, all
  that follows the extension lost with it. For \<^verbatim>\<open>/a.py\<close>, in the root directory, the
  directory written to is \<^verbatim>\<open>.\<close>, the working directory. For the file \<^verbatim>\<open>caaa\<close> and the
  extension \<^verbatim>\<open>aa\<close> the name is \<^verbatim>\<open>c.kyc\<close>, where removing the extension gives \<^verbatim>\<open>ca\<close>.
\<close>

theorem output_name_lost:
  "output_names (str_of ''/'') (str_of ''notes.txt'') (str_of ''.py'') =
     Inr (str_of ''notes.txt'', str_of ''.'', str_of ''.kyc'') \<and>
   output_names (str_of ''/'') (str_of ''src/a.py.bak'') (str_of ''.py'') =
     Inr (str_of ''a.py.bak'', str_of ''src'', str_of ''a.kyc'') \<and>
   output_names (str_of ''/'') (str_of ''/a.py'') (str_of ''.py'') =
     Inr (str_of ''a.py'', str_of ''.'', str_of ''a.kyc'') \<and>
   output_names (str_of ''/'') (str_of ''caaa'') (str_of ''aa'') =
     Inr (str_of ''caaa'', str_of ''.'', str_of ''c.kyc'') \<and>
   map fst (snd (compile_kyc demo_host [] (str_of ''notes.txt'') (str_of ''.py'') False)) =
     [str_of ''./.kyc'']"
proof -
  have a: "output_names (str_of ''/'') (str_of ''src/a.py.bak'') (str_of ''.py'') =
     Inr (str_of ''a.py.bak'', str_of ''src'', str_of ''a.kyc'')"
    by (simp add: output_names_def str_split_def str_of_def)
  have b: "output_names (str_of ''/'') (str_of ''/a.py'') (str_of ''.py'') =
     Inr (str_of ''a.py'', str_of ''.'', str_of ''a.kyc'')"
    by (simp add: output_names_def str_split_def str_of_def)
  have c: "output_names (str_of ''/'') (str_of ''caaa'') (str_of ''aa'') =
     Inr (str_of ''caaa'', str_of ''.'', str_of ''c.kyc'')"
    by (simp add: output_names_def str_split_def str_of_def)
  obtain unit where u: "compile_code_object (demo_code (str_of ''notes.txt'')) = Inr unit"
    using code_demo_notes by blast
  have p: "str_of ''.'' @ str_of ''/'' @ str_of ''.kyc'' = str_of ''./.kyc''"
    by (simp add: str_of_def)
  have "map fst (snd (compile_kyc demo_host [] (str_of ''notes.txt'') (str_of ''.py'') False)) =
     [str_of ''./.kyc'']"
    by (simp add: compile_kyc_def demo_host_simps output_names_notes comment_demo u
        to_bytes_def p Let_def)
  then show ?thesis
    using output_names_notes a b c by simp
qed

section \<open>The rounds of the daemon\<close>

lemma split_ws_blank: "str_split_ws [10] = []" "str_split_ws [] = []"
  by (simp_all add: str_split_ws_def isspace_def)

lemma serve_crash:
  "loop_body h st = (Some e, st') \<Longrightarrow> serve h st = Some (e, st')"
  by (subst serve.simps) simp

lemma serve_continue:
  "loop_body h st = (None, st') \<Longrightarrow> serve h st = serve h st'"
  by (subst serve.simps) simp

text \<open>
  A round consumes one line. A round that ends normally has added exactly one line to the
  output, and a round that raises has added none. On a finite input the loop always ends
  with an exception, at the latest at the end of the input, where the unpacking raises:
  the final state holds the lines written by the rounds that ended normally, and what is
  left of the input after them and the round that raised.
\<close>

lemma loop_body_round:
  "loop_body h st = (r, st') \<Longrightarrow>
     stdin st' = tl (stdin st) \<and>
     (r = None \<longrightarrow> (\<exists>line. stdout st' = stdout st @ [line])) \<and>
     (r \<noteq> None \<longrightarrow> stdout st' = stdout st)"
  by (cases "stdin st")
    (auto simp: loop_body_def readline_def print_def Let_def
      split: list.splits sum.splits prod.splits if_splits)

lemma line_with_command:
  assumes "stdin st = data # rest" and "str_split_ws data = command # args"
    and "loop_body h st = (r, st')"
  shows "stdin st' = rest \<and>
         (command \<noteq> str_of ''c'' \<longrightarrow> r = None \<and> stdout st' = stdout st @ [str_of ''u'']) \<and>
         (r = None \<longrightarrow> (\<exists>line. stdout st' = stdout st @ [line])) \<and>
         (r \<noteq> None \<longrightarrow> stdout st' = stdout st)"
  using assms
  by (auto simp: loop_body_def readline_def print_def Let_def
      split: list.splits sum.splits prod.splits if_splits)

lemma serve_final:
  "\<exists>e stf others. serve h st = Some (e, stf) \<and> stdout stf = stdout st @ others \<and>
     stdin stf = drop (Suc (length others)) (stdin st)"
proof (induction "length (stdin st)" arbitrary: st rule: less_induct)
  case less
  obtain r st1 where b: "loop_body h st = (r, st1)"
    by (cases "loop_body h st")
  note rd = loop_body_round [OF b]
  show ?case
  proof (cases r)
    case (Some e)
    then have "serve h st = Some (e, st1)"
      using serve_crash b by blast
    moreover have "stdout st1 = stdout st @ []" "stdin st1 = drop (Suc (length ([] :: str list))) (stdin st)"
      using rd Some by (simp_all add: drop_Suc)
    ultimately show ?thesis
      by blast
  next
    case None
    have ne: "stdin st \<noteq> []"
    proof
      assume "stdin st = []"
      then have "fst (loop_body h st) \<noteq> None"
        by (simp add: loop_body_def readline_def split_ws_blank)
      then show False
        using b None by simp
    qed
    then have "length (stdin st1) < length (stdin st)"
      using rd by (cases "stdin st") auto
    then obtain e stf others where s: "serve h st1 = Some (e, stf)"
      and o: "stdout stf = stdout st1 @ others"
      and i: "stdin stf = drop (Suc (length others)) (stdin st1)"
      using less by blast
    obtain line where l: "stdout st1 = stdout st @ [line]"
      using rd None by blast
    have "serve h st = Some (e, stf)"
      using serve_continue b None s by metis
    moreover have "stdout stf = stdout st @ (line # others)"
      using o l by simp
    moreover have "stdin stf = drop (Suc (length (line # others))) (stdin st)"
      using i rd by (simp add: drop_Suc)
    ultimately show ?thesis
      by blast
  qed
qed

lemma utf8_index_error:
  "utf8_encode (str_of ''list index out of range'') = Inr (bytes_of ''list index out of range'')"
  by (simp add: utf8_encode_def utf8_char_def is_surrogate_def str_of_def bytes_of_def)

lemma split_ws_c: "str_split_ws (str_of ''c'' @ [10]) = [str_of ''c'']"
  by (simp add: str_split_ws_def isspace_def str_of_def)

lemma hex_index_error:
  "hex (bytes_of ''list index out of range'') =
     str_of ''6c69737420696e646578206f7574206f662072616e6765''"
  by (simp add: hex_def hexdigit_def bytes_of_def str_of_def)

lemma split_ws_request:
  "str_split_ws (str_of ''c mod/a.py'' @ [10]) = [str_of ''c'', str_of ''mod/a.py'']"
  "str_split_ws (str_of ''c missing.py'' @ [10]) = [str_of ''c'', str_of ''missing.py'']"
  "str_split_ws (str_of ''c bad.py'' @ [10]) = [str_of ''c'', str_of ''bad.py'']"
  "str_split_ws (str_of ''x foo'' @ [10]) = [str_of ''x'', str_of ''foo'']"
  by (simp_all add: str_split_ws_def isspace_def str_of_def)

lemma serve_demo_run:
  "serve demo_host \<lparr>stdin = [str_of ''c'' @ [10], str_of ''x foo'' @ [10]], stdout = [], files = []\<rparr> =
     Some (ValueError (str_of ''not enough values to unpack (expected at least 1, got 0)''),
           \<lparr>stdin = [], stdout = [str_of ''e 6c69737420696e646578206f7574206f662072616e6765'', str_of ''u''],
            files = []\<rparr>)"
proof -
  have n: "str_of ''x'' \<noteq> str_of ''c''"
    by (simp add: str_of_def)
  have p: "str_of ''e '' @ str_of ''6c69737420696e646578206f7574206f662072616e6765'' =
      str_of ''e 6c69737420696e646578206f7574206f662072616e6765''"
    by (simp add: str_of_def)
  have a: "loop_body demo_host \<lparr>stdin = [str_of ''c'' @ [10], str_of ''x foo'' @ [10]], stdout = [], files = []\<rparr> =
      (None, \<lparr>stdin = [str_of ''x foo'' @ [10]],
              stdout = [str_of ''e 6c69737420696e646578206f7574206f662072616e6765''], files = []\<rparr>)"
    by (simp add: loop_body_def readline_def print_def split_ws_c utf8_index_error hex_index_error p)
  have b: "loop_body demo_host \<lparr>stdin = [str_of ''x foo'' @ [10]],
              stdout = [str_of ''e 6c69737420696e646578206f7574206f662072616e6765''], files = []\<rparr> =
      (None, \<lparr>stdin = [],
              stdout = [str_of ''e 6c69737420696e646578206f7574206f662072616e6765'', str_of ''u''],
              files = []\<rparr>)"
    by (simp add: loop_body_def readline_def print_def split_ws_request n)
  have c: "loop_body demo_host \<lparr>stdin = [],
              stdout = [str_of ''e 6c69737420696e646578206f7574206f662072616e6765'', str_of ''u''],
              files = []\<rparr> =
      (Some (ValueError (str_of ''not enough values to unpack (expected at least 1, got 0)'')),
       \<lparr>stdin = [],
              stdout = [str_of ''e 6c69737420696e646578206f7574206f662072616e6765'', str_of ''u''],
              files = []\<rparr>)"
    by (simp add: loop_body_def readline_def split_ws_blank)
  show ?thesis
    using serve_continue [OF a] serve_continue [OF b] serve_crash [OF c] by simp
qed

text \<open>
  C9. A line whose only token is \<open>c\<close> is answered with the line \<open>e\<close> followed by the
  hexadecimal text of \<^verbatim>\<open>list index out of range\<close>: the \<^verbatim>\<open>IndexError\<close> of \<^verbatim>\<open>args[0]\<close> is
  raised inside the \<^verbatim>\<open>try\<close> and caught by \<^verbatim>\<open>except Exception\<close>. The round ends normally,
  and the loop goes on with the next line: the loop ends in a state whose output is the
  output so far, the \<open>e\<close> line, and the lines written for the requests that follow; one
  more line of the input is read for each of these, and one for the round that raises. A
  following line whose first token is not \<open>c\<close> is answered with \<open>u\<close> right after the \<open>e\<close>
  line; after a blank line, or at the end of the input, nothing more is written.
\<close>

theorem missing_path_answered:
  assumes "stdin st = data # rest" and "str_split_ws data = [str_of ''c'']"
  shows "loop_body h st =
           (None, st\<lparr>stdin := rest,
                     stdout := stdout st @ [str_of ''e '' @ hex (bytes_of ''list index out of range'')]\<rparr>) \<and>
         serve h st =
           serve h (st\<lparr>stdin := rest,
                     stdout := stdout st @ [str_of ''e '' @ hex (bytes_of ''list index out of range'')]\<rparr>) \<and>
         (\<exists>e stf others.
            serve h st = Some (e, stf) \<and>
            stdout stf =
              stdout st @ [str_of ''e '' @ hex (bytes_of ''list index out of range'')] @ others \<and>
            stdin stf = drop (Suc (length others)) rest \<and>
            (case rest of
               [] \<Rightarrow> others = []
             | next_data # rest' \<Rightarrow>
                 (case str_split_ws next_data of
                    [] \<Rightarrow> others = []
                  | command # args \<Rightarrow>
                      command \<noteq> str_of ''c'' \<longrightarrow> (\<exists>others'. others = str_of ''u'' # others'))))"
proof -
  let ?st1 = "st\<lparr>stdin := rest,
                 stdout := stdout st @ [str_of ''e '' @ hex (bytes_of ''list index out of range'')]\<rparr>"
  have b: "loop_body h st = (None, ?st1)"
    using assms by (simp add: loop_body_def readline_def utf8_index_error print_def)
  have c: "serve h st = serve h ?st1"
    using serve_continue [OF b] .
  obtain r st2 where b2: "loop_body h ?st1 = (r, st2)"
    by (cases "loop_body h ?st1")
  note rd = loop_body_round [OF b2]
  show ?thesis
  proof (cases r)
    case (Some e)
    then have s: "serve h st = Some (e, st2)"
      using serve_crash [of h ?st1 e st2] b2 c by simp
    have o: "stdout st2 = stdout st @ [str_of ''e '' @ hex (bytes_of ''list index out of range'')] @ []"
      using rd Some by simp
    have i: "stdin st2 = drop (Suc (length ([] :: str list))) rest"
      using rd by (simp add: drop_Suc)
    have n: "case rest of
               [] \<Rightarrow> ([] :: str list) = []
             | next_data # rest' \<Rightarrow>
                 (case str_split_ws next_data of
                    [] \<Rightarrow> ([] :: str list) = []
                  | command # args \<Rightarrow>
                      command \<noteq> str_of ''c'' \<longrightarrow> (\<exists>others'. ([] :: str list) = str_of ''u'' # others'))"
    proof (cases rest)
      case Nil
      then show ?thesis by simp
    next
      case (Cons next_data rest')
      show ?thesis
      proof (cases "str_split_ws next_data")
        case Nil
        then show ?thesis using Cons by simp
      next
        case (Cons command args)
        have "command \<noteq> str_of ''c'' \<Longrightarrow> r = None"
          using line_with_command [of ?st1 next_data rest' command args h r st2] b2 Cons \<open>rest = next_data # rest'\<close>
          by simp
        then show ?thesis
          using Some Cons \<open>rest = next_data # rest'\<close> by auto
      qed
    qed
    show ?thesis
      using b c s o i n by blast
  next
    case None
    obtain line where l: "stdout st2 = stdout ?st1 @ [line]"
      using rd None by blast
    obtain e stf others where s: "serve h st2 = Some (e, stf)"
      and o: "stdout stf = stdout st2 @ others"
      and i: "stdin stf = drop (Suc (length others)) (stdin st2)"
      using serve_final by blast
    have s': "serve h st = Some (e, stf)"
      using c serve_continue [of h ?st1 st2] b2 None s by simp
    have o': "stdout stf =
        stdout st @ [str_of ''e '' @ hex (bytes_of ''list index out of range'')] @ (line # others)"
      using o l by simp
    have i': "stdin stf = drop (Suc (length (line # others))) rest"
      using i rd by (simp add: drop_Suc)
    have n: "case rest of
               [] \<Rightarrow> line # others = []
             | next_data # rest' \<Rightarrow>
                 (case str_split_ws next_data of
                    [] \<Rightarrow> line # others = []
                  | command # args \<Rightarrow>
                      command \<noteq> str_of ''c'' \<longrightarrow> (\<exists>others'. line # others = str_of ''u'' # others'))"
    proof (cases rest)
      case Nil
      then have "fst (loop_body h ?st1) \<noteq> None"
        by (simp add: loop_body_def readline_def split_ws_blank)
      then show ?thesis
        using b2 None by simp
    next
      case (Cons next_data rest')
      show ?thesis
      proof (cases "str_split_ws next_data")
        case Nil
        then have "fst (loop_body h ?st1) \<noteq> None"
          using Cons by (simp add: loop_body_def readline_def)
        then show ?thesis
          using b2 None by simp
      next
        case (Cons command args)
        have "command \<noteq> str_of ''c'' \<Longrightarrow> stdout st2 = stdout ?st1 @ [str_of ''u'']"
          using line_with_command [of ?st1 next_data rest' command args h r st2] b2 Cons \<open>rest = next_data # rest'\<close>
          by simp
        then show ?thesis
          using l Cons \<open>rest = next_data # rest'\<close> by auto
      qed
    qed
    show ?thesis
      using b c s' o' i' n by blast
  qed
qed

theorem missing_path_answered_witness:
  "loop_body demo_host \<lparr>stdin = [str_of ''c'' @ [10], str_of ''x foo'' @ [10]], stdout = [], files = []\<rparr> =
     (None, \<lparr>stdin = [str_of ''x foo'' @ [10]],
             stdout = [str_of ''e 6c69737420696e646578206f7574206f662072616e6765''],
             files = []\<rparr>) \<and>
   (\<exists>e stf others.
      serve demo_host \<lparr>stdin = [str_of ''c'' @ [10], str_of ''x foo'' @ [10]], stdout = [], files = []\<rparr> =
        Some (e, stf) \<and>
      stdout stf = [str_of ''e 6c69737420696e646578206f7574206f662072616e6765'', str_of ''u''] @ others \<and>
      stdin stf = []) \<and>
   serve demo_host \<lparr>stdin = [str_of ''c'' @ [10], str_of ''x foo'' @ [10]], stdout = [], files = []\<rparr> =
     Some (ValueError (str_of ''not enough values to unpack (expected at least 1, got 0)''),
           \<lparr>stdin = [], stdout = [str_of ''e 6c69737420696e646578206f7574206f662072616e6765'', str_of ''u''],
            files = []\<rparr>)"
proof -
  have n: "str_of ''x'' \<noteq> str_of ''c''"
    by (simp add: str_of_def)
  have p: "str_of ''e '' @ str_of ''6c69737420696e646578206f7574206f662072616e6765'' =
      str_of ''e 6c69737420696e646578206f7574206f662072616e6765''"
    by (simp add: str_of_def)
  note t = missing_path_answered
    [of "\<lparr>stdin = [str_of ''c'' @ [10], str_of ''x foo'' @ [10]], stdout = [], files = []\<rparr>"
        "str_of ''c'' @ [10]" "[str_of ''x foo'' @ [10]]" demo_host]
  have a: "loop_body demo_host \<lparr>stdin = [str_of ''c'' @ [10], str_of ''x foo'' @ [10]], stdout = [], files = []\<rparr> =
     (None, \<lparr>stdin = [str_of ''x foo'' @ [10]],
             stdout = [str_of ''e 6c69737420696e646578206f7574206f662072616e6765''],
             files = []\<rparr>)"
    using t by (simp add: split_ws_c hex_index_error p)
  have b: "\<exists>e stf others.
      serve demo_host \<lparr>stdin = [str_of ''c'' @ [10], str_of ''x foo'' @ [10]], stdout = [], files = []\<rparr> =
        Some (e, stf) \<and>
      stdout stf = [str_of ''e 6c69737420696e646578206f7574206f662072616e6765'', str_of ''u''] @ others \<and>
      stdin stf = []"
    using t by (clarsimp simp: split_ws_c split_ws_request n hex_index_error p) metis
  show ?thesis
    using a b serve_demo_run by blast
qed

text \<open>
  The rounds that the handlers of the loop cover. A line with at least one token is
  answered with exactly one line, and the loop goes on with the next line: \<open>u\<close> when the
  first token is not \<open>c\<close>; for \<open>c\<close> with no path the \<open>e\<close> line of the \<^verbatim>\<open>IndexError\<close>; for
  \<open>c\<close> and a path, \<open>C\<close> and the hexadecimal text of the container, or \<open>e\<close> and the
  hexadecimal text of the message of the exception, when that is an \<^verbatim>\<open>Exception\<close> whose
  message can be encoded.
\<close>

lemma request_line_answered:
  assumes "stdin st = data # rest" and "str_split_ws data = command # args"
    and "\<forall>a others e. command = str_of ''c'' \<longrightarrow> args = a # others \<longrightarrow>
           fst (compile_kyc h (files st) a (str_of ''.py'') False) = Inl e \<longrightarrow>
           is_Exception e \<and> (\<exists>m. utf8_encode (message e) = Inr m)"
  shows "\<exists>line st'. loop_body h st = (None, st') \<and> serve h st = serve h st' \<and>
           stdin st' = rest \<and> stdout st' = stdout st @ [line] \<and>
           (command \<noteq> str_of ''c'' \<longrightarrow> line = str_of ''u'') \<and>
           (command = str_of ''c'' \<longrightarrow>
              (case args of
                 [] \<Rightarrow> line = str_of ''e '' @ hex (bytes_of ''list index out of range'')
               | a # others \<Rightarrow>
                   (case fst (compile_kyc h (files st) a (str_of ''.py'') False) of
                      Inr compiled \<Rightarrow> line = str_of ''C '' @ hex compiled
                    | Inl e \<Rightarrow> \<exists>m. utf8_encode (message e) = Inr m \<and> line = str_of ''e '' @ hex m)))"
proof -
  have "\<exists>line st'. loop_body h st = (None, st') \<and>
           stdin st' = rest \<and> stdout st' = stdout st @ [line] \<and>
           (command \<noteq> str_of ''c'' \<longrightarrow> line = str_of ''u'') \<and>
           (command = str_of ''c'' \<longrightarrow>
              (case args of
                 [] \<Rightarrow> line = str_of ''e '' @ hex (bytes_of ''list index out of range'')
               | a # others \<Rightarrow>
                   (case fst (compile_kyc h (files st) a (str_of ''.py'') False) of
                      Inr compiled \<Rightarrow> line = str_of ''C '' @ hex compiled
                    | Inl e \<Rightarrow> \<exists>m. utf8_encode (message e) = Inr m \<and> line = str_of ''e '' @ hex m)))"
  proof (cases "command = str_of ''c''")
    case False
    then show ?thesis
      using assms(1,2) by (simp add: loop_body_def readline_def print_def)
  next
    case True
    show ?thesis
    proof (cases args)
      case Nil
      then show ?thesis
        using True assms(1,2)
        by (simp add: loop_body_def readline_def print_def utf8_index_error)
    next
      case (Cons a others)
      obtain r fs' where k: "compile_kyc h (files st) a (str_of ''.py'') False = (r, fs')"
        by (cases "compile_kyc h (files st) a (str_of ''.py'') False")
      show ?thesis
      proof (cases r)
        case (Inr compiled)
        then show ?thesis
          using True Cons k assms(1,2) by (simp add: loop_body_def readline_def print_def)
      next
        case (Inl e)
        then obtain m where "is_Exception e" "utf8_encode (message e) = Inr m"
          using assms(3) True Cons k by fastforce
        then show ?thesis
          using True Cons k Inl assms(1,2) by (simp add: loop_body_def readline_def print_def)
      qed
    qed
  qed
  then show ?thesis
    using serve_continue by blast
qed

lemma demo_failures:
  "compile_kyc demo_host [] (str_of ''missing.py'') (str_of ''.py'') False =
     (Inl (OSError (str_of ''No such file'')), [])"
  "compile_kyc demo_host [] (str_of ''bad.py'') (str_of ''.py'') False =
     (Inl (SyntaxError (str_of ''unmatched ')' '')), [])"
  by (simp_all add: compile_kyc_def output_names_def str_split_def demo_host_def path_sep_def
      str_of_def)

lemma utf8_demo_messages:
  "utf8_encode (str_of ''No such file'') = Inr (bytes_of ''No such file'')"
  "utf8_encode (str_of ''unmatched ')' '') = Inr (bytes_of ''unmatched ')' '')"
  by (simp_all add: utf8_encode_def utf8_char_def is_surrogate_def str_of_def bytes_of_def)

lemma request_line_answered_demo:
  "(\<exists>st'. loop_body demo_host \<lparr>stdin = [str_of ''c mod/a.py'' @ [10]], stdout = [], files = []\<rparr> =
            (None, st') \<and> stdin st' = [] \<and> stdout st' = [str_of ''C '' @ hex demo_kyc]) \<and>
   (\<exists>st'. loop_body demo_host \<lparr>stdin = [str_of ''c bad.py'' @ [10]], stdout = [], files = []\<rparr> =
            (None, st') \<and> stdin st' = [] \<and>
            stdout st' = [str_of ''e '' @ hex (bytes_of ''unmatched ')' '')]) \<and>
   (\<exists>st'. loop_body demo_host \<lparr>stdin = [str_of ''c missing.py'' @ [10]], stdout = [], files = []\<rparr> =
            (None, st') \<and> stdin st' = [] \<and>
            stdout st' = [str_of ''e '' @ hex (bytes_of ''No such file'')]) \<and>
   (\<exists>st'. loop_body demo_host \<lparr>stdin = [str_of ''x foo'' @ [10]], stdout = [], files = []\<rparr> =
            (None, st') \<and> stdin st' = [] \<and> stdout st' = [str_of ''u''])"
proof -
  have a: "\<exists>st'. loop_body demo_host \<lparr>stdin = [str_of ''c mod/a.py'' @ [10]], stdout = [], files = []\<rparr> =
            (None, st') \<and> stdin st' = [] \<and> stdout st' = [str_of ''C '' @ hex demo_kyc]"
    using request_line_answered
      [of "\<lparr>stdin = [str_of ''c mod/a.py'' @ [10]], stdout = [], files = []\<rparr>"
          "str_of ''c mod/a.py'' @ [10]" "[]" "str_of ''c''" "[str_of ''mod/a.py'']" demo_host]
    by (auto simp: split_ws_request demo_run)
  have b: "\<exists>st'. loop_body demo_host \<lparr>stdin = [str_of ''c bad.py'' @ [10]], stdout = [], files = []\<rparr> =
            (None, st') \<and> stdin st' = [] \<and>
            stdout st' = [str_of ''e '' @ hex (bytes_of ''unmatched ')' '')]"
    using request_line_answered
      [of "\<lparr>stdin = [str_of ''c bad.py'' @ [10]], stdout = [], files = []\<rparr>"
          "str_of ''c bad.py'' @ [10]" "[]" "str_of ''c''" "[str_of ''bad.py'']" demo_host]
    by (auto simp: split_ws_request demo_failures utf8_demo_messages)
  have c: "\<exists>st'. loop_body demo_host \<lparr>stdin = [str_of ''c missing.py'' @ [10]], stdout = [], files = []\<rparr> =
            (None, st') \<and> stdin st' = [] \<and>
            stdout st' = [str_of ''e '' @ hex (bytes_of ''No such file'')]"
    using request_line_answered
      [of "\<lparr>stdin = [str_of ''c missing.py'' @ [10]], stdout = [], files = []\<rparr>"
          "str_of ''c missing.py'' @ [10]" "[]" "str_of ''c''" "[str_of ''missing.py'']" demo_host]
    by (auto simp: split_ws_request demo_failures utf8_demo_messages)
  have n: "str_of ''x'' \<noteq> str_of ''c''"
    by (simp add: str_of_def)
  have "loop_body demo_host \<lparr>stdin = [str_of ''x foo'' @ [10]], stdout = [], files = []\<rparr> =
      (None, \<lparr>stdin = [], stdout = [str_of ''u''], files = []\<rparr>)"
    by (simp add: loop_body_def readline_def print_def split_ws_request n)
  then have d: "\<exists>st'. loop_body demo_host \<lparr>stdin = [str_of ''x foo'' @ [10]], stdout = [], files = []\<rparr> =
            (None, st') \<and> stdin st' = [] \<and> stdout st' = [str_of ''u'']"
    by simp
  show ?thesis
    using a b c d by blast
qed

lemma blank_line_round:
  "loop_body h \<lparr>stdin = [10] # rest, stdout = out, files = fs\<rparr> =
     (Some (ValueError (str_of ''not enough values to unpack (expected at least 1, got 0)'')),
      \<lparr>stdin = rest, stdout = out, files = fs\<rparr>)"
  by (simp add: loop_body_def readline_def split_ws_blank)

text \<open>
  C4. The claim: every line read, an empty one too, is answered with one line, and no line
  ends the loop. The code answers a line whose first token it does not know with \<open>u\<close>,
  and catches what a compilation raises. But a line that is only a newline has no token:
  the unpacking \<^verbatim>\<open>command, *args = data.split()\<close> raises \<^verbatim>\<open>ValueError\<close>, and it stands
  before the \<^verbatim>\<open>try\<close>. No line is written and the loop ends with that exception, the
  requests behind the blank line unread. The end of the input, where \<^verbatim>\<open>readline\<close> gives
  the empty string, ends the loop the same way. On the input \<^verbatim>\<open>x foo\<close>, a blank line,
  \<^verbatim>\<open>x foo\<close>, the first request is answered with \<open>u\<close> and the third is never read.
\<close>

theorem blank_line_ends_daemon:
  "loop_body h \<lparr>stdin = [10] # rest, stdout = out, files = fs\<rparr> =
     (Some (ValueError (str_of ''not enough values to unpack (expected at least 1, got 0)'')),
      \<lparr>stdin = rest, stdout = out, files = fs\<rparr>) \<and>
   serve h \<lparr>stdin = [10] # rest, stdout = out, files = fs\<rparr> =
     Some (ValueError (str_of ''not enough values to unpack (expected at least 1, got 0)''),
           \<lparr>stdin = rest, stdout = out, files = fs\<rparr>) \<and>
   serve h \<lparr>stdin = [], stdout = out, files = fs\<rparr> =
     Some (ValueError (str_of ''not enough values to unpack (expected at least 1, got 0)''),
           \<lparr>stdin = [], stdout = out, files = fs\<rparr>) \<and>
   serve demo_host
       \<lparr>stdin = [str_of ''x foo'' @ [10], [10], str_of ''x foo'' @ [10]], stdout = [], files = []\<rparr> =
     Some (ValueError (str_of ''not enough values to unpack (expected at least 1, got 0)''),
           \<lparr>stdin = [str_of ''x foo'' @ [10]], stdout = [str_of ''u''], files = []\<rparr>)"
proof -
  note a = blank_line_round
  have b: "loop_body h \<lparr>stdin = [], stdout = out, files = fs\<rparr> =
     (Some (ValueError (str_of ''not enough values to unpack (expected at least 1, got 0)'')),
      \<lparr>stdin = [], stdout = out, files = fs\<rparr>)"
    by (simp add: loop_body_def readline_def split_ws_blank)
  have n: "str_of ''x'' \<noteq> str_of ''c''"
    by (simp add: str_of_def)
  have c: "loop_body demo_host
       \<lparr>stdin = [str_of ''x foo'' @ [10], [10], str_of ''x foo'' @ [10]], stdout = [], files = []\<rparr> =
      (None, \<lparr>stdin = [[10], str_of ''x foo'' @ [10]], stdout = [str_of ''u''], files = []\<rparr>)"
    by (simp add: loop_body_def readline_def print_def split_ws_request n)
  have d: "serve demo_host
       \<lparr>stdin = [str_of ''x foo'' @ [10], [10], str_of ''x foo'' @ [10]], stdout = [], files = []\<rparr> =
     Some (ValueError (str_of ''not enough values to unpack (expected at least 1, got 0)''),
           \<lparr>stdin = [str_of ''x foo'' @ [10]], stdout = [str_of ''u''], files = []\<rparr>)"
    using serve_continue [OF c] serve_crash [OF a [of demo_host "[str_of ''x foo'' @ [10]]" "[str_of ''u'']" "[]"]]
    by simp
  show ?thesis
    using a [of h rest out fs] serve_crash [OF a [of h rest out fs]] serve_crash [OF b] d by simp
qed

end
